theory Spec2Isabelle
  imports Main "HOL-Library.Sublist"
begin

section \<open>Python values used by the two scripts\<close>

text \<open>
  Exceptions are values: a kind and the text that \<open>str(e)\<close> gives. A function that can
  raise returns \<open>py_exception + 'a\<close>, with \<open>Inl\<close> for the raised exception.
  \<open>KeyboardInterrupt\<close> stands for the exceptions that are not subclasses of
  \<open>Exception\<close>; \<open>RequestException\<close> for \<open>requests.exceptions.RequestException\<close> and
  its subclasses (\<open>HTTPError\<close>, \<open>ConnectionError\<close>, ...); \<open>OSError\<close> for the errors of
  \<open>open\<close>, \<open>write\<close> and \<open>mkdir\<close>. \<open>UnicodeEncodeError\<close> is a subclass of
  \<open>ValueError\<close>: an \<open>except ValueError\<close> catches both.
\<close>

datatype exn_kind =
  ValueError | UnicodeEncodeError | OverflowError | AttributeError | RequestException
  | OSError | RuntimeError | KeyboardInterrupt

datatype py_exception = Exc exn_kind string

fun exn_kind_of :: "py_exception \<Rightarrow> exn_kind" where
  "exn_kind_of (Exc k m) = k"

fun exn_str :: "py_exception \<Rightarrow> string" where
  "exn_str (Exc k m) = m"

text \<open>\<open>except ValueError\<close>.\<close>

definition is_ValueError :: "py_exception \<Rightarrow> bool" where
  "is_ValueError e = (exn_kind_of e = ValueError \<or> exn_kind_of e = UnicodeEncodeError)"

text \<open>\<open>except Exception\<close> catches everything but the \<open>BaseException\<close>-only kinds.\<close>

fun is_Exception :: "py_exception \<Rightarrow> bool" where
  "is_Exception (Exc k m) = (k \<noteq> KeyboardInterrupt)"

subsection \<open>Characters\<close>

text \<open>
  A \<open>char\<close> is read as the code point of the same number (U+0000 to U+00FF). The
  classes are those of Python's \<open>str\<close> patterns and of \<open>str.strip\<close> on that range.
\<close>

definition code :: "char \<Rightarrow> nat" where
  "code c = of_char c"

definition is_digit :: "char \<Rightarrow> bool" where
  "is_digit c = (48 \<le> code c \<and> code c \<le> 57)"

definition is_space :: "char \<Rightarrow> bool" where
  "is_space c = ((9 \<le> code c \<and> code c \<le> 13) \<or> (28 \<le> code c \<and> code c \<le> 32)
      \<or> code c = 133 \<or> code c = 160)"

definition is_word :: "char \<Rightarrow> bool" where
  "is_word c = (is_digit c \<or> (65 \<le> code c \<and> code c \<le> 90) \<or> (97 \<le> code c \<and> code c \<le> 122)
      \<or> code c = 95 \<or> code c = 170 \<or> code c = 178 \<or> code c = 179 \<or> code c = 181
      \<or> code c = 185 \<or> code c = 186 \<or> (188 \<le> code c \<and> code c \<le> 190)
      \<or> (192 \<le> code c \<and> code c \<le> 214) \<or> (216 \<le> code c \<and> code c \<le> 246)
      \<or> 248 \<le> code c)"

definition digit_val :: "char \<Rightarrow> nat" where
  "digit_val c = code c - 48"

definition digit_chr :: "nat \<Rightarrow> char" where
  "digit_chr n = ''0123456789'' ! (n mod 10)"

text \<open>\<open>str.strip()\<close>: whitespace removed at both ends.\<close>

definition strip :: "string \<Rightarrow> string" where
  "strip s = rev (dropWhile is_space (rev (dropWhile is_space s)))"

text \<open>\<open>int(s)\<close> on the strings the patterns below can capture: optional surrounding
  whitespace around a non-empty run of decimal digits; anything else is a \<open>ValueError\<close>.\<close>

definition digits_val :: "string \<Rightarrow> nat" where
  "digits_val s = foldl (\<lambda>a c. 10 * a + digit_val c) 0 s"

definition py_int :: "string \<Rightarrow> py_exception + nat" where
  "py_int s =
     (let t = strip s
      in if t \<noteq> [] \<and> list_all is_digit t then Inr (digits_val t)
         else Inl (Exc ValueError (''invalid literal for int() with base 10: '' @ s)))"

text \<open>Zero-padded decimal of fixed width, as \<open>%02d\<close> and \<open>%04d\<close> print it.\<close>

fun pad :: "nat \<Rightarrow> nat \<Rightarrow> string" where
  "pad 0 n = (if n = 0 then [] else pad 0 (n div 10) @ [digit_chr n])"
| "pad (Suc w) n = pad w (n div 10) @ [digit_chr n]"

text \<open>\<open>str(n)\<close>, and \<open>%d\<close> without a width.\<close>

definition str_nat :: "nat \<Rightarrow> string" where
  "str_nat n = (if n = 0 then ''0'' else pad 0 n)"

section \<open>Regular expressions as \<open>re.match\<close> runs them\<close>

text \<open>
  The patterns of the two scripts, and those \<open>strptime\<close> builds from a format, are
  sequences of single characters, repetitions of a character class, alternatives of
  fixed character sequences, and unnested groups. \<open>re.match\<close> anchors at the start of
  the string and backtracks in priority order: a greedy repetition tries the longest
  run first, a lazy one the shortest, an alternation its branches from left to right;
  the first way that lets the rest of the pattern match is the match.
\<close>

datatype cclass =
  Lit char            \<comment> \<open>the character itself\<close>
  | Dot               \<comment> \<open>\<open>.\<close>: anything but a newline\<close>
  | Digit             \<comment> \<open>\<open>\d\<close>\<close>
  | Word              \<comment> \<open>\<open>\w\<close>\<close>
  | Space             \<comment> \<open>\<open>\s\<close>\<close>
  | NotChar char      \<comment> \<open>\<open>[^c]\<close>\<close>
  | Range char char   \<comment> \<open>\<open>[a-b]\<close>\<close>

fun cmatch :: "cclass \<Rightarrow> char \<Rightarrow> bool" where
  "cmatch (Lit a) c = (c = a)"
| "cmatch Dot c = (c \<noteq> CHR 0x0A)"
| "cmatch Digit c = is_digit c"
| "cmatch Word c = is_word c"
| "cmatch Space c = is_space c"
| "cmatch (NotChar a) c = (c \<noteq> a)"
| "cmatch (Range a b) c = (code a \<le> code c \<and> code c \<le> code b)"

datatype rx =
  One cclass                 \<comment> \<open>one character of the class\<close>
  | Rep cclass nat bool      \<comment> \<open>at least so many of the class; \<open>True\<close> is greedy, \<open>False\<close> lazy\<close>
  | Alts "cclass list list"  \<comment> \<open>\<open>a|b|c\<close>, each branch a fixed sequence\<close>
  | GOpen                    \<comment> \<open>\<open>(\<close>\<close>
  | GClose                   \<comment> \<open>\<open>)\<close>\<close>

text \<open>Captures: the groups closed so far, and the text of the group that is open.\<close>

type_synonym captures = "string list \<times> string option"

fun cap_add :: "string \<Rightarrow> captures \<Rightarrow> captures" where
  "cap_add t (gs, None) = (gs, None)"
| "cap_add t (gs, Some u) = (gs, Some (u @ t))"

fun cap_open :: "captures \<Rightarrow> captures" where
  "cap_open (gs, cur) = (gs, Some [])"

fun cap_close :: "captures \<Rightarrow> captures" where
  "cap_close (gs, None) = (gs, None)"
| "cap_close (gs, Some u) = (gs @ [u], None)"

text \<open>The result of a match: the groups, and the input left after the match.\<close>

type_synonym rmatch_result = "string list \<times> string"

fun first_some :: "('a \<Rightarrow> 'b option) \<Rightarrow> 'a list \<Rightarrow> 'b option" where
  "first_some f [] = None"
| "first_some f (x # xs) = (case f x of Some r \<Rightarrow> Some r | None \<Rightarrow> first_some f xs)"

text \<open>A fixed sequence of classes against the front of the input.\<close>

fun cseq :: "cclass list \<Rightarrow> string \<Rightarrow> (string \<times> string) option" where
  "cseq [] s = Some ([], s)"
| "cseq (c # cs) [] = None"
| "cseq (c # cs) (x # xs) =
     (if cmatch c x
      then (case cseq cs xs of None \<Rightarrow> None | Some (t, rest) \<Rightarrow> Some (x # t, rest))
      else None)"

text \<open>The repetition counts to try, in the order the engine tries them.\<close>

definition rep_counts :: "nat \<Rightarrow> nat \<Rightarrow> bool \<Rightarrow> nat list" where
  "rep_counts m n greedy = (if greedy then rev [m..<Suc n] else [m..<Suc n])"

fun rx_step :: "rx \<Rightarrow> (string \<Rightarrow> captures \<Rightarrow> rmatch_result option)
                  \<Rightarrow> string \<Rightarrow> captures \<Rightarrow> rmatch_result option" where
  "rx_step (One c) k s cp =
     (case s of [] \<Rightarrow> None
      | x # xs \<Rightarrow> if cmatch c x then k xs (cap_add [x] cp) else None)"
| "rx_step (Rep c m greedy) k s cp =
     first_some (\<lambda>i. k (drop i s) (cap_add (take i s) cp))
       (rep_counts m (length (takeWhile (cmatch c) s)) greedy)"
| "rx_step (Alts bs) k s cp =
     first_some (\<lambda>b. case cseq b s of None \<Rightarrow> None
                      | Some (t, rest) \<Rightarrow> k rest (cap_add t cp)) bs"
| "rx_step GOpen k s cp = k s (cap_open cp)"
| "rx_step GClose k s cp = k s (cap_close cp)"

fun rmatch :: "rx list \<Rightarrow> string \<Rightarrow> captures \<Rightarrow> rmatch_result option" where
  "rmatch [] s cp = Some (fst cp, s)"
| "rmatch (x # r) s cp = rx_step x (rmatch r) s cp"

definition re_match :: "rx list \<Rightarrow> string \<Rightarrow> rmatch_result option" where
  "re_match r s = rmatch r s ([], None)"

section \<open>\<open>datetime\<close>\<close>

text \<open>
  A \<open>datetime\<close> object: the proleptic Gregorian date and the time of day. No format
  used by the scripts has \<open>%f\<close>, so the microsecond field is always zero and is left out.
\<close>

record datetime =
  year :: nat
  month :: nat
  day :: nat
  hour :: nat
  minute :: nat
  second :: nat

definition is_leap :: "nat \<Rightarrow> bool" where
  "is_leap y = (y mod 4 = 0 \<and> (y mod 100 \<noteq> 0 \<or> y mod 400 = 0))"

definition days_in_month :: "nat \<Rightarrow> nat \<Rightarrow> nat" where
  "days_in_month y m =
     (if m = 2 then (if is_leap y then 29 else 28)
      else if m = 4 \<or> m = 6 \<or> m = 9 \<or> m = 11 then 30
      else if 1 \<le> m \<and> m \<le> 12 then 31
      else 0)"

definition days_before_year :: "nat \<Rightarrow> nat" where
  "days_before_year y = (y - 1) * 365 + (y - 1) div 4 - (y - 1) div 100 + (y - 1) div 400"

fun days_before_month :: "nat \<Rightarrow> nat \<Rightarrow> nat" where
  "days_before_month y 0 = 0"
| "days_before_month y (Suc m) = days_before_month y m + days_in_month y m"

text \<open>\<open>toordinal()\<close>: day 1 is 0001-01-01.\<close>

definition toordinal :: "datetime \<Rightarrow> nat" where
  "toordinal d = days_before_year (year d) + days_before_month (year d) (month d) + day d"

text \<open>What the constructor accepts: \<open>MINYEAR = 1\<close>, \<open>MAXYEAR = 9999\<close>.\<close>

definition valid_datetime :: "datetime \<Rightarrow> bool" where
  "valid_datetime d =
     (1 \<le> year d \<and> year d \<le> 9999 \<and> 1 \<le> month d \<and> month d \<le> 12
      \<and> 1 \<le> day d \<and> day d \<le> days_in_month (year d) (month d)
      \<and> hour d \<le> 23 \<and> minute d \<le> 59 \<and> second d \<le> 59)"

definition mk_datetime :: "datetime \<Rightarrow> py_exception + datetime" where
  "mk_datetime d =
     (if \<not> (1 \<le> year d \<and> year d \<le> 9999) then Inl (Exc ValueError ''year is out of range'')
      else if \<not> (1 \<le> month d \<and> month d \<le> 12) then Inl (Exc ValueError ''month must be in 1..12'')
      else if \<not> (1 \<le> day d \<and> day d \<le> days_in_month (year d) (month d))
        then Inl (Exc ValueError ''day is out of range for month'')
      else if \<not> hour d \<le> 23 then Inl (Exc ValueError ''hour must be in 0..23'')
      else if \<not> minute d \<le> 59 then Inl (Exc ValueError ''minute must be in 0..59'')
      else if \<not> second d \<le> 59 then Inl (Exc ValueError ''second must be in 0..59'')
      else Inr d)"

text \<open>Comparison of two \<open>datetime\<close> objects is lexicographic on the fields.\<close>

definition dt_key :: "datetime \<Rightarrow> nat list" where
  "dt_key d = [year d, month d, day d, hour d, minute d, second d]"

fun lex_le :: "nat list \<Rightarrow> nat list \<Rightarrow> bool" where
  "lex_le [] ys = True"
| "lex_le (x # xs) [] = False"
| "lex_le (x # xs) (y # ys) = (x < y \<or> (x = y \<and> lex_le xs ys))"

definition dt_le :: "datetime \<Rightarrow> datetime \<Rightarrow> bool" where
  "dt_le a b = lex_le (dt_key a) (dt_key b)"

text \<open>
  \<open>d + timedelta(days=1)\<close>: the next calendar day at the same time of day; past
  9999-12-31 it raises \<open>OverflowError\<close>.
\<close>

definition add_one_day :: "datetime \<Rightarrow> py_exception + datetime" where
  "add_one_day d =
     (if day d < days_in_month (year d) (month d) then Inr (d\<lparr>day := day d + 1\<rparr>)
      else if month d < 12 then Inr (d\<lparr>month := month d + 1, day := 1\<rparr>)
      else if year d < 9999 then Inr (d\<lparr>year := year d + 1, month := 1, day := 1\<rparr>)
      else Inl (Exc OverflowError ''date value out of range''))"

subsection \<open>\<open>strftime\<close>\<close>

text \<open>
  The directives the scripts use; any other character of the format is copied.
  \<open>strftime\<close> hands the format to the C library, and what \<open>%Y\<close> gives for a year below
  1000 depends on it: four digits with leading zeros on some platforms, the plain number
  on others (glibc). \<open>zero_pad_year\<close> says which; \<open>%m\<close>, \<open>%d\<close>, \<open>%H\<close>, \<open>%M\<close> and \<open>%S\<close>
  are two digits everywhere.
\<close>

definition year_str :: "bool \<Rightarrow> nat \<Rightarrow> string" where
  "year_str zero_pad_year y = (if zero_pad_year then pad 4 y else str_nat y)"

fun strftime :: "bool \<Rightarrow> datetime \<Rightarrow> string \<Rightarrow> string" where
  "strftime zp d [] = []"
| "strftime zp d [c] = [c]"
| "strftime zp d (c # x # fmt) =
     (if c = CHR ''%'' then
        (if x = CHR ''Y'' then year_str zp (year d) @ strftime zp d fmt
         else if x = CHR ''m'' then pad 2 (month d) @ strftime zp d fmt
         else if x = CHR ''d'' then pad 2 (day d) @ strftime zp d fmt
         else if x = CHR ''H'' then pad 2 (hour d) @ strftime zp d fmt
         else if x = CHR ''M'' then pad 2 (minute d) @ strftime zp d fmt
         else if x = CHR ''S'' then pad 2 (second d) @ strftime zp d fmt
         else c # x # strftime zp d fmt)
      else c # strftime zp d (x # fmt))"

subsection \<open>\<open>strptime\<close>\<close>

text \<open>
  \<open>strptime\<close> turns the format into a regular expression: every directive becomes a
  group with the pattern below, a run of whitespace becomes \<open>\s+\<close> (emitted at the last
  character of the run), any other character stands for itself. The data must match from its start and no character may be left
  over; then the groups are converted with \<open>int\<close> and handed to the constructor.
\<close>

definition directive_rx :: "char \<Rightarrow> rx option" where
  "directive_rx x =
     (if x = CHR ''Y'' then Some (Alts [[Digit, Digit, Digit, Digit]])
      else if x = CHR ''m'' then
        Some (Alts [[Lit CHR ''1'', Range CHR ''0'' CHR ''2''],
                    [Lit CHR ''0'', Range CHR ''1'' CHR ''9''],
                    [Range CHR ''1'' CHR ''9'']])
      else if x = CHR ''d'' then
        Some (Alts [[Lit CHR ''3'', Range CHR ''0'' CHR ''1''],
                    [Range CHR ''1'' CHR ''2'', Digit],
                    [Lit CHR ''0'', Range CHR ''1'' CHR ''9''],
                    [Range CHR ''1'' CHR ''9''],
                    [Lit CHR '' '', Range CHR ''1'' CHR ''9'']])
      else if x = CHR ''H'' then
        Some (Alts [[Lit CHR ''2'', Range CHR ''0'' CHR ''3''],
                    [Range CHR ''0'' CHR ''1'', Digit],
                    [Digit]])
      else if x = CHR ''M'' then
        Some (Alts [[Range CHR ''0'' CHR ''5'', Digit], [Digit]])
      else if x = CHR ''S'' then
        Some (Alts [[Lit CHR ''6'', Range CHR ''0'' CHR ''1''],
                    [Range CHR ''0'' CHR ''5'', Digit],
                    [Digit]])
      else None)"

text \<open>The pattern of a format, and the directives in the order of their groups.
  \<open>None\<close>: the format has a directive that is not modelled, or ends in \<open>%\<close>.\<close>

fun format_rx :: "string \<Rightarrow> (rx list \<times> char list) option" where
  "format_rx [] = Some ([], [])"
| "format_rx (c # fmt) =
     (if c = CHR ''%'' then
        (case fmt of [] \<Rightarrow> None
         | x # fmt' \<Rightarrow>
            (case directive_rx x of None \<Rightarrow> None
             | Some p \<Rightarrow>
                (case format_rx fmt' of None \<Rightarrow> None
                 | Some (r, ds) \<Rightarrow> Some (GOpen # p # GClose # r, x # ds))))
      else if is_space c then
        (case format_rx fmt of None \<Rightarrow> None
         | Some (r, ds) \<Rightarrow>
            if fmt \<noteq> [] \<and> is_space (hd fmt) then Some (r, ds)
            else Some (Rep Space 1 True # r, ds))
      else
        (case format_rx fmt of None \<Rightarrow> None
         | Some (r, ds) \<Rightarrow> Some (One (Lit c) # r, ds)))"

text \<open>The fields before any group is read: 1900-01-01 00:00:00.\<close>

definition strptime_default :: datetime where
  "strptime_default = \<lparr>year = 1900, month = 1, day = 1, hour = 0, minute = 0, second = 0\<rparr>"

definition set_field :: "char \<Rightarrow> nat \<Rightarrow> datetime \<Rightarrow> datetime" where
  "set_field x n d =
     (if x = CHR ''Y'' then d\<lparr>year := n\<rparr>
      else if x = CHR ''m'' then d\<lparr>month := n\<rparr>
      else if x = CHR ''d'' then d\<lparr>day := n\<rparr>
      else if x = CHR ''H'' then d\<lparr>hour := n\<rparr>
      else if x = CHR ''M'' then d\<lparr>minute := n\<rparr>
      else if x = CHR ''S'' then d\<lparr>second := n\<rparr>
      else d)"

fun set_fields :: "(char \<times> string) list \<Rightarrow> datetime \<Rightarrow> py_exception + datetime" where
  "set_fields [] d = Inr d"
| "set_fields ((x, g) # rest) d =
     (case py_int g of Inl e \<Rightarrow> Inl e
      | Inr n \<Rightarrow> set_fields rest (set_field x n d))"

text \<open>The quotes \<open>repr\<close> puts around the strings in the message; its escapes are not
  modelled (no function of the scripts looks inside this message).\<close>

definition py_repr :: "string \<Rightarrow> string" where
  "py_repr s = [CHR 0x27] @ s @ [CHR 0x27]"

definition strptime :: "string \<Rightarrow> string \<Rightarrow> py_exception + datetime" where
  "strptime data fmt =
     (case format_rx fmt of
        None \<Rightarrow> Inl (Exc ValueError (''bad directive in format '' @ py_repr fmt))
      | Some (r, ds) \<Rightarrow>
         (case re_match r data of
            None \<Rightarrow> Inl (Exc ValueError (''time data '' @ py_repr data
                                         @ '' does not match format '' @ py_repr fmt))
          | Some (gs, rest) \<Rightarrow>
             if rest \<noteq> [] then Inl (Exc ValueError (''unconverted data remains: '' @ rest))
             else (case set_fields (zip ds gs) strptime_default of
                     Inl e \<Rightarrow> Inl e
                   | Inr d \<Rightarrow> mk_datetime d)))"

section \<open>\<open>download_logsivr.py\<close>: the date list\<close>

text \<open>
  \<^verbatim>\<open>
  while current_date <= end_date:
      date_list.append(current_date.strftime("%Y-%m-%d"))
      current_date += timedelta(days=1)
  \<close>
  The loop, with the list built so far as accumulator. The addition is the step that
  can raise, after the day has been appended.
\<close>

function date_loop :: "bool \<Rightarrow> datetime \<Rightarrow> datetime \<Rightarrow> string list
                         \<Rightarrow> py_exception + string list" where
  "date_loop zp current_date end_date date_list =
     (if dt_le current_date end_date then
        (case add_one_day current_date of
           Inl e \<Rightarrow> Inl e
         | Inr next_date \<Rightarrow>
             date_loop zp next_date end_date
               (date_list @ [strftime zp current_date ''%Y-%m-%d'']))
      else Inr date_list)"
  by pat_completeness auto
termination
proof (relation "measure (\<lambda>(zp, c, e, l).
                   (9999 - year c) * 384 + (12 - month c) * 32 + (31 - day c))")
  show "wf (measure (\<lambda>(zp, c, e, l).
              (9999 - year c) * 384 + (12 - month c) * 32 + (31 - day c)))"
    by simp
next
  fix zp and current_date end_date :: datetime and date_list :: "string list" and next_date
  assume a: "add_one_day current_date = Inr next_date"
  have dim: "days_in_month (year current_date) (month current_date) \<le> 31"
    by (simp add: days_in_month_def)
  from a dim
  show "((zp, next_date, end_date, date_list @ [strftime zp current_date ''%Y-%m-%d'']),
         (zp, current_date, end_date, date_list))
        \<in> measure (\<lambda>(zp, c, e, l).
              (9999 - year c) * 384 + (12 - month c) * 32 + (31 - day c))"
    by (auto simp: add_one_day_def split: if_splits)
qed

declare date_loop.simps [simp del]

text \<open>The function, on a platform whose \<open>%Y\<close> is as \<open>zero_pad_year\<close> says.\<close>

definition generate_date_list :: "bool \<Rightarrow> string \<Rightarrow> string \<Rightarrow> py_exception + string list" where
  "generate_date_list zero_pad_year start_date_str end_date_str =
     (case strptime start_date_str ''%d/%m/%Y'' of
        Inl e \<Rightarrow> Inl e
      | Inr start_date \<Rightarrow>
         (case strptime end_date_str ''%d/%m/%Y'' of
            Inl e \<Rightarrow> Inl e
          | Inr end_date \<Rightarrow> date_loop zero_pad_year start_date end_date []))"

section \<open>\<open>csv_conversion_script.py\<close>: the line parser\<close>

text \<open>The dictionary \<open>parse_chat_line\<close> returns, with its four keys.\<close>

record chat_row =
  row_timestamp :: datetime
  row_channel :: string
  row_username :: string
  row_message :: string

text \<open>\<^verbatim>\<open>\[(.*?)\](.+)\<close>\<close>

definition timestamp_rx :: "rx list" where
  "timestamp_rx =
     [One (Lit CHR ''[''), GOpen, Rep Dot 0 False, GClose, One (Lit CHR '']''),
      GOpen, Rep Dot 1 True, GClose]"

text \<open>\<^verbatim>\<open>\s*#(\w+)\s+([^:]+):(.+)\<close>\<close>

definition channel_user_message_rx :: "rx list" where
  "channel_user_message_rx =
     [Rep Space 0 True, One (Lit CHR ''#''), GOpen, Rep Word 1 True, GClose,
      Rep Space 1 True, GOpen, Rep (NotChar CHR '':'') 1 True, GClose,
      One (Lit CHR '':''), GOpen, Rep Dot 1 True, GClose]"

text \<open>
  \<open>print\<close> writes to the standard output, which may refuse a text: a stream that cannot
  encode it raises \<open>UnicodeEncodeError\<close>. The stream is given by what it does with a
  text: \<open>None\<close> when it prints it, the exception otherwise.
\<close>

type_synonym console = "string \<Rightarrow> py_exception option"

text \<open>
  \<^verbatim>\<open>
  except (ValueError, AttributeError) as e:
      print(f"Error parsing line: {line}, Error: {str(e)}")
      return None
  \<close>
  An exception the clause does not name leaves the function, and so does one that
  \<open>print\<close> raises inside the handler.
\<close>

definition parse_handler :: "console \<Rightarrow> string \<Rightarrow> py_exception \<Rightarrow> py_exception + chat_row option" where
  "parse_handler stdout line e =
     (if is_ValueError e \<or> exn_kind_of e = AttributeError then
        (case stdout (''Error parsing line: '' @ line @ '', Error: '' @ exn_str e) of
           None \<Rightarrow> Inr None
         | Some e' \<Rightarrow> Inl e')
      else Inl e)"

text \<open>Unpacking \<open>groups()\<close> into a fixed number of names raises \<open>ValueError\<close> when the
  number of groups differs.\<close>

definition unpack_error :: py_exception where
  "unpack_error = Exc ValueError ''wrong number of values to unpack''"

definition parse_chat_line :: "console \<Rightarrow> string \<Rightarrow> py_exception + chat_row option" where
  "parse_chat_line stdout line =
     (case re_match timestamp_rx line of
        None \<Rightarrow> Inr None
      | Some (groups, after) \<Rightarrow>
         (case groups of
            [timestamp_str, rest] \<Rightarrow>
              (case strptime (strip timestamp_str) ''%Y-%m-%d %H:%M:%S'' of
                 Inl e \<Rightarrow> parse_handler stdout line e
               | Inr timestamp \<Rightarrow>
                  (case re_match channel_user_message_rx rest of
                     None \<Rightarrow> Inr None
                   | Some (groups2, after2) \<Rightarrow>
                      (case groups2 of
                         [channel, username, message] \<Rightarrow>
                           Inr (Some \<lparr>row_timestamp = timestamp, row_channel = channel,
                                      row_username = strip username,
                                      row_message = strip message\<rparr>)
                       | _ \<Rightarrow> parse_handler stdout line unpack_error)))
          | _ \<Rightarrow> Inl unpack_error))"

section \<open>\<open>download_logsivr.py\<close>: the environment\<close>

text \<open>
  What a \<open>requests.get\<close> can do: answer, or raise. The fields of the answer are those the
  script and \<open>raise_for_status\<close> read.
\<close>

datatype http_result =
  Response (status_code: nat) (reason: string) (resp_url: string) (resp_text: string)
  | GetRaises py_exception

text \<open>What opening a file for writing and writing it can do: succeed, fail at \<open>open\<close>
  (no file is made), or fail at \<open>write\<close> (the file is there, truncated).\<close>

datatype write_result = WriteOk | OpenRaises py_exception | WriteRaises py_exception

datatype event =
  RateLimiter                                 \<comment> \<open>a call went through the rate-limit decorators\<close>
  | SemAcquire                                \<comment> \<open>\<open>with semaphore:\<close> entered\<close>
  | SemRelease                                \<comment> \<open>\<open>with semaphore:\<close> left\<close>
  | HttpGet string "(string \<times> string) list"   \<comment> \<open>\<open>requests.get(url, params)\<close>\<close>
  | FileWrite string string                   \<comment> \<open>a file written and closed\<close>
  | LogError string                           \<comment> \<open>\<open>logging.error\<close>\<close>
  | MkDir string

text \<open>
  The world a run sees: the files (path to content), what the remote service answers to
  a request, what the disk does on a write and on \<open>mkdir\<close>, what the platform's \<open>%Y\<close>
  does, and the trace of what the run has done so far.
\<close>

record world =
  files :: "string \<Rightarrow> string option"
  zero_pad_year :: bool
  http :: "string \<Rightarrow> (string \<times> string) list \<Rightarrow> http_result"
  disk :: "string \<Rightarrow> write_result"
  mkdir :: "string \<Rightarrow> py_exception option"
  trace :: "event list"

definition emit :: "event \<Rightarrow> world \<Rightarrow> world" where
  "emit ev w = w\<lparr>trace := trace w @ [ev]\<rparr>"

definition requests_get :: "string \<Rightarrow> (string \<times> string) list \<Rightarrow> world \<Rightarrow> http_result \<times> world" where
  "requests_get u params w = (http w u params, emit (HttpGet u params) w)"

text \<open>\<^verbatim>\<open>with open(path, 'w') as f: f.write(content)\<close>\<close>

definition write_file :: "string \<Rightarrow> string \<Rightarrow> world \<Rightarrow> (py_exception + unit) \<times> world" where
  "write_file path content w =
     (case disk w path of
        WriteOk \<Rightarrow> (Inr (), emit (FileWrite path content) (w\<lparr>files := (files w)(path \<mapsto> content)\<rparr>))
      | OpenRaises e \<Rightarrow> (Inl e, w)
      | WriteRaises e \<Rightarrow> (Inl e, w\<lparr>files := (files w)(path \<mapsto> [])\<rparr>))"

text \<open>\<open>Response.raise_for_status()\<close>: an \<open>HTTPError\<close> for 400 to 599, nothing otherwise.\<close>

definition raise_for_status :: "nat \<Rightarrow> string \<Rightarrow> string \<Rightarrow> py_exception + unit" where
  "raise_for_status st rs u =
     (if 400 \<le> st \<and> st < 500 then
        Inl (Exc RequestException (str_nat st @ '' Client Error: '' @ rs @ '' for url: '' @ u))
      else if 500 \<le> st \<and> st < 600 then
        Inl (Exc RequestException (str_nat st @ '' Server Error: '' @ rs @ '' for url: '' @ u))
      else Inr ())"

section \<open>\<open>validate_channel\<close>\<close>

definition validate_channel :: "string \<Rightarrow> world \<Rightarrow> (py_exception + bool) \<times> world" where
  "validate_channel channel w =
     (let url = ''https://logs.ivr.fi/channel/'' @ channel
      in case requests_get url [] w of
           (Response st rs u body, w') \<Rightarrow>
             (Inr (\<not> sublist ''No logs found'' body \<and> st = 200), w')
         | (GetRaises e, w') \<Rightarrow>
             (if exn_kind_of e = RequestException then Inr False else Inl e, w'))"

section \<open>\<open>download_single_day\<close>\<close>

text \<open>The two \<open>except\<close> clauses of the \<open>try\<close>, in their order.\<close>

definition handle_error :: "string \<Rightarrow> py_exception \<Rightarrow> world \<Rightarrow> (py_exception + string) \<times> world" where
  "handle_error date_str e w =
     (if exn_kind_of e = RequestException then
        (let error_msg = ''Error downloading '' @ date_str @ '': '' @ exn_str e
         in (Inr error_msg, emit (LogError error_msg) w))
      else if is_Exception e then
        (let error_msg = ''Unexpected error for '' @ date_str @ '': '' @ exn_str e
         in (Inr error_msg, emit (LogError error_msg) w))
      else (Inl e, w))"

text \<open>The body of the \<open>try\<close>: the request, \<open>raise_for_status\<close>, the file.\<close>

definition fetch_and_save ::
  "string \<Rightarrow> string \<Rightarrow> string \<Rightarrow> string \<Rightarrow> string \<Rightarrow> world \<Rightarrow> (py_exception + string) \<times> world" where
  "fetch_and_save channel date_str from_date to_date filename w =
     (let url = ''https://logs.ivr.fi/channel/'' @ channel;
          params = [(''from'', from_date), (''to'', to_date)]
      in case requests_get url params w of
           (GetRaises e, w1) \<Rightarrow> handle_error date_str e w1
         | (Response st rs u body, w1) \<Rightarrow>
             (case raise_for_status st rs u of
                Inl e \<Rightarrow> handle_error date_str e w1
              | Inr ok \<Rightarrow>
                 (case write_file filename body w1 of
                    (Inl e, w2) \<Rightarrow> handle_error date_str e w2
                  | (Inr ok', w2) \<Rightarrow> (Inr (''Successfully downloaded '' @ date_str), w2))))"

text \<open>
  The function as written, without its decorators. The semaphore is given by the number
  of permits that are free when the call runs; \<open>with semaphore:\<close> never returns when there
  is none and nobody to release one, and the result is then \<open>None\<close>. The permit is given
  back however the block is left.
\<close>

definition download_single_day_body ::
  "string \<Rightarrow> string \<Rightarrow> nat \<Rightarrow> world \<Rightarrow> ((py_exception + string) \<times> world) option" where
  "download_single_day_body channel date_str semaphore w =
     (case strptime date_str ''%Y-%m-%d'' of
        Inl e \<Rightarrow> Some (Inl e, w)
      | Inr current_date \<Rightarrow>
         (case add_one_day current_date of
            Inl e \<Rightarrow> Some (Inl e, w)
          | Inr next_date \<Rightarrow>
             (let from_date = strftime (zero_pad_year w) current_date ''%Y-%m-%dT00:00:00Z'';
                  to_date = strftime (zero_pad_year w) next_date ''%Y-%m-%dT00:00:00Z'';
                  filename = ''logs/'' @ channel @ ''_logs_'' @ date_str @ ''.txt''
              in if files w filename \<noteq> None then
                   Some (Inr (''Skipped '' @ date_str @ '' - file exists''), w)
                 else if semaphore = 0 then None
                 else (case fetch_and_save channel date_str from_date to_date filename
                              (emit SemAcquire w) of
                         (r, w') \<Rightarrow> Some (r, emit SemRelease w')))))"

text \<open>
  \<^verbatim>\<open>@sleep_and_retry @limits(calls=5, period=1)\<close> wrap the whole function: every call
  goes through the limiter first, which delays it as long as it must and then runs the
  body once. How long it waits is not part of this model.
\<close>

definition download_single_day ::
  "string \<Rightarrow> string \<Rightarrow> nat \<Rightarrow> world \<Rightarrow> ((py_exception + string) \<times> world) option" where
  "download_single_day channel date_str semaphore w =
     download_single_day_body channel date_str semaphore (emit RateLimiter w)"

section \<open>\<open>download_logs_parallel\<close>\<close>

text \<open>\<open>d[k] = v\<close> on a dictionary that keeps insertion order.\<close>

fun dict_set :: "'k \<Rightarrow> 'v \<Rightarrow> ('k \<times> 'v) list \<Rightarrow> ('k \<times> 'v) list" where
  "dict_set k v [] = [(k, v)]"
| "dict_set k v ((k', v') # kvs) =
     (if k = k' then (k, v) # kvs else (k', v') # dict_set k v kvs)"

text \<open>
  \<open>as_completed\<close> yields every future once, in the order the tasks finish. The order is
  given by a list of choices: each picks one of the tasks still running.
\<close>

definition without :: "nat \<Rightarrow> 'a list \<Rightarrow> 'a list" where
  "without i xs = take i xs @ drop (Suc i) xs"

function as_completed :: "nat list \<Rightarrow> 'a list \<Rightarrow> 'a list" where
  "as_completed sched [] = []"
| "as_completed [] (x # xs) = x # xs"
| "as_completed (c # sched) (x # xs) =
     ((x # xs) ! (c mod length (x # xs)))
       # as_completed sched (without (c mod length (x # xs)) (x # xs))"
  by pat_completeness auto
termination
  by (relation "measure (\<lambda>(sched, xs). length xs)") (auto simp: without_def)

text \<open>
  The tasks, each run to its end in the order they finish. The days of one run are
  different, so the tasks write different files, and a task sees the same files and
  answers whether or not the others run beside it. A task leaves \<open>Inr\<close> its return value
  or \<open>Inl\<close> the exception that \<open>future.result()\<close> raises again.
\<close>

fun run_tasks :: "string \<Rightarrow> nat \<Rightarrow> string list \<Rightarrow> world
                   \<Rightarrow> ((string \<times> (py_exception + string)) list \<times> world) option" where
  "run_tasks channel semaphore [] w = Some ([], w)"
| "run_tasks channel semaphore (date # dates) w =
     (case download_single_day channel date semaphore w of
        None \<Rightarrow> None
      | Some (r, w1) \<Rightarrow>
         (case run_tasks channel semaphore dates w1 of
            None \<Rightarrow> None
          | Some (rs, w2) \<Rightarrow> Some ((date, r) # rs, w2)))"

text \<open>
  \<^verbatim>\<open>
  try:
      result = future.result()
      if "Error" in result:
          failed_downloads[date] = result
  except Exception as e:
      failed_downloads[date] = str(e)
  \<close>
\<close>

fun collect_failures :: "(string \<times> (py_exception + string)) list \<Rightarrow> (string \<times> string) list
                          \<Rightarrow> py_exception + (string \<times> string) list" where
  "collect_failures [] failed_downloads = Inr failed_downloads"
| "collect_failures ((date, Inr result) # rest) failed_downloads =
     collect_failures rest
       (if sublist ''Error'' result then dict_set date result failed_downloads
        else failed_downloads)"
| "collect_failures ((date, Inl e) # rest) failed_downloads =
     (if is_Exception e then collect_failures rest (dict_set date (exn_str e) failed_downloads)
      else Inl e)"

definition report_path :: "string \<Rightarrow> string" where
  "report_path channel = ''failed_downloads_'' @ channel @ ''.txt''"

definition report_line :: "string \<times> string \<Rightarrow> string" where
  "report_line kv = fst kv @ '': '' @ snd kv @ [CHR 0x0A]"

text \<open>What a run that returns leaves: the failure dictionary and, for the statements
  below, what every task gave.\<close>

record batch =
  failed_downloads :: "(string \<times> string) list"
  outcomes :: "(string \<times> (py_exception + string)) list"

definition download_logs_parallel ::
  "string \<Rightarrow> string \<Rightarrow> string \<Rightarrow> int \<Rightarrow> int \<Rightarrow> nat list \<Rightarrow> world
     \<Rightarrow> ((py_exception + batch) \<times> world) option" where
  "download_logs_parallel channel start_date_str end_date_str max_workers
       max_concurrent_requests sched w =
     (case mkdir w ''logs'' of
        Some e \<Rightarrow> Some (Inl e, w)
      | None \<Rightarrow>
         (let w0 = emit (MkDir ''logs'') w
          in case generate_date_list (zero_pad_year w) start_date_str end_date_str of
               Inl e \<Rightarrow> Some (Inl e, w0)
             | Inr dates \<Rightarrow>
                if max_concurrent_requests < 0 then
                  Some (Inl (Exc ValueError ''semaphore initial value must be >= 0''), w0)
                else if max_workers \<le> 0 then
                  Some (Inl (Exc ValueError ''max_workers must be greater than 0''), w0)
                else
                  (case run_tasks channel (nat max_concurrent_requests)
                          (as_completed sched dates) w0 of
                     None \<Rightarrow> None
                   | Some (outs, w1) \<Rightarrow>
                      (case collect_failures outs [] of
                         Inl e \<Rightarrow> Some (Inl e, w1)
                       | Inr failed \<Rightarrow>
                          if failed \<noteq> [] then
                            (case write_file (report_path channel)
                                    (concat (map report_line failed)) w1 of
                               (Inl e, w2) \<Rightarrow> Some (Inl e, w2)
                             | (Inr u, w2) \<Rightarrow>
                                 Some (Inr \<lparr>failed_downloads = failed, outcomes = outs\<rparr>, w2))
                          else Some (Inr \<lparr>failed_downloads = failed, outcomes = outs\<rparr>, w1)))))"

section \<open>Tasks running side by side\<close>

text \<open>
  What one task does, as the events of a call of \<open>download_single_day\<close> in a world
  where a permit is free. In the pool the call may have to wait at \<open>with semaphore:\<close>;
  the waiting is the business of the steps below.
\<close>

definition task_events :: "string \<Rightarrow> string \<Rightarrow> world \<Rightarrow> event list" where
  "task_events channel date_str w =
     (case download_single_day channel date_str 1 w of
        None \<Rightarrow> []
      | Some (r, w') \<Rightarrow> drop (length (trace w)) (trace w'))"

text \<open>
  The state of the pool: the free permits of the one semaphore, what every task has
  still to do, and which tasks are inside a \<open>with semaphore:\<close> block.
\<close>

record gate =
  permits :: nat
  pending :: "event list list"
  holding :: "bool list"

text \<open>\<open>Semaphore(max_concurrent_requests)\<close>, and all tasks submitted.\<close>

definition gate_init :: "nat \<Rightarrow> event list list \<Rightarrow> gate" where
  "gate_init max_concurrent_requests progs =
     \<lparr>permits = max_concurrent_requests, pending = progs,
      holding = map (\<lambda>p. False) progs\<rparr>"

text \<open>
  Task \<open>i\<close> does its next event, or \<open>None\<close> when it cannot: it has finished, or its next
  event is the \<open>acquire\<close> of \<open>with semaphore:\<close> and no permit is free. \<open>acquire\<close> takes a
  permit, the \<open>release\<close> at the end of the block gives one back; any other event changes
  neither. The threads are scheduled freely: any task may step whenever it can.
\<close>

definition gate_step :: "nat \<Rightarrow> gate \<Rightarrow> gate option" where
  "gate_step i g =
     (if i < length (pending g) then
        (case pending g ! i of
           [] \<Rightarrow> None
         | ev # evs \<Rightarrow>
            if ev = SemAcquire then
              (if 0 < permits g
               then Some (g\<lparr>permits := permits g - 1, pending := (pending g)[i := evs],
                            holding := (holding g)[i := True]\<rparr>)
               else None)
            else if ev = SemRelease then
              Some (g\<lparr>permits := permits g + 1, pending := (pending g)[i := evs],
                      holding := (holding g)[i := False]\<rparr>)
            else Some (g\<lparr>pending := (pending g)[i := evs]\<rparr>))
      else None)"

fun gate_run :: "nat list \<Rightarrow> gate \<Rightarrow> gate option" where
  "gate_run [] g = Some g"
| "gate_run (i # sched) g =
     (case gate_step i g of None \<Rightarrow> None | Some g' \<Rightarrow> gate_run sched g')"

text \<open>The number of tasks inside the block.\<close>

definition in_flight :: "gate \<Rightarrow> nat" where
  "in_flight g = length (filter (\<lambda>h. h) (holding g))"

section \<open>Notions for the statements\<close>

text \<open>A task that went well: it downloaded the day, or found it on disk.\<close>

definition succeeded :: "string \<Rightarrow> py_exception + string \<Rightarrow> bool" where
  "succeeded date_str r =
     (r = Inr (''Successfully downloaded '' @ date_str)
      \<or> r = Inr (''Skipped '' @ date_str @ '' - file exists''))"

text \<open>What \<open>download_logs_parallel\<close> records as a failure: a result that contains
  \<open>Error\<close>, or an exception.\<close>

definition is_failure :: "py_exception + string \<Rightarrow> bool" where
  "is_failure r = (case r of Inl e \<Rightarrow> True | Inr result \<Rightarrow> sublist ''Error'' result)"

text \<open>What a call added to the trace, and that it left the service and the disk as they
  were.\<close>

definition new_events :: "world \<Rightarrow> world \<Rightarrow> event list" where
  "new_events w w' = drop (length (trace w)) (trace w')"

definition same_service :: "world \<Rightarrow> world \<Rightarrow> bool" where
  "same_service w w' =
     (http w' = http w \<and> disk w' = disk w \<and> mkdir w' = mkdir w
      \<and> zero_pad_year w' = zero_pad_year w)"

text \<open>The character classes of a pattern, and whether one of them takes a character.\<close>

fun classes_of :: "rx \<Rightarrow> cclass list" where
  "classes_of (One c) = [c]"
| "classes_of (Rep c m g) = [c]"
| "classes_of (Alts bs) = concat bs"
| "classes_of GOpen = []"
| "classes_of GClose = []"

definition accepts :: "rx list \<Rightarrow> char \<Rightarrow> bool" where
  "accepts r c = (\<exists>x \<in> set r. \<exists>cl \<in> set (classes_of x). cmatch cl c)"

text \<open>
  The events of a task keep to the block: read from a point where the task holds a
  permit or not, \<open>acquire\<close> comes only without a permit, \<open>release\<close> and a request only
  with one, and at the end no permit is held.
\<close>

fun gated :: "bool \<Rightarrow> event list \<Rightarrow> bool" where
  "gated h [] = (\<not> h)"
| "gated h (SemAcquire # evs) = (\<not> h \<and> gated True evs)"
| "gated h (SemRelease # evs) = (h \<and> gated False evs)"
| "gated h (HttpGet u ps # evs) = (h \<and> gated h evs)"
| "gated h (ev # evs) = gated h evs"

text \<open>What holds of the pool at every moment of a run (shown below): the permits add up,
  and what every task has still to do keeps to its block.\<close>

definition gate_ok :: "nat \<Rightarrow> gate \<Rightarrow> bool" where
  "gate_ok m g =
     (permits g + in_flight g = m \<and> length (holding g) = length (pending g)
      \<and> list_all (\<lambda>i. gated (holding g ! i) (pending g ! i)) [0..<length (pending g)])"

text \<open>A date at midnight, as \<open>strptime\<close> gives it for a format without time; and the last
  day a \<open>datetime\<close> can hold.\<close>

definition midnight :: "datetime \<Rightarrow> bool" where
  "midnight d = (hour d = 0 \<and> minute d = 0 \<and> second d = 0)"

definition max_day :: "datetime \<Rightarrow> bool" where
  "max_day d = (year d = 9999 \<and> month d = 12 \<and> day d = 31)"

section \<open>Worlds for the examples\<close>

text \<open>A service that cannot be reached.\<close>

definition world_offline :: world where
  "world_offline =
     \<lparr>files = (\<lambda>p. None), zero_pad_year = False,
      http = (\<lambda>u ps. GetRaises (Exc RequestException ''Connection refused'')),
      disk = (\<lambda>p. WriteOk), mkdir = (\<lambda>p. None), trace = []\<rparr>"

text \<open>A service that answers every request, on an empty disk; and the same after the
  first of January 2024 has been downloaded for channel \<open>foo\<close>.\<close>

definition world_online :: world where
  "world_online =
     \<lparr>files = (\<lambda>p. None), zero_pad_year = False,
      http = (\<lambda>u ps. Response 200 ''OK'' u ''[2024-01-01 00:00:05] #foo bar: hi''),
      disk = (\<lambda>p. WriteOk), mkdir = (\<lambda>p. None), trace = []\<rparr>"

definition world_downloaded :: world where
  "world_downloaded =
     world_online\<lparr>
       files := (files world_online)(''logs/foo_logs_2024-01-01.txt'' \<mapsto>
                  ''[2024-01-01 00:00:05] #foo bar: hi''),
       trace :=
         [MkDir ''logs'', RateLimiter, SemAcquire,
          HttpGet ''https://logs.ivr.fi/channel/foo''
            [(''from'', ''2024-01-01T00:00:00Z''), (''to'', ''2024-01-02T00:00:00Z'')],
          FileWrite ''logs/foo_logs_2024-01-01.txt'' ''[2024-01-01 00:00:05] #foo bar: hi'',
          SemRelease]\<rparr>"

text \<open>The day is on disk already.\<close>

definition world_resumed :: world where
  "world_resumed =
     \<lparr>files = (\<lambda>p. if p = ''logs/foo_logs_2024-01-01.txt''
                     then Some ''[2024-01-01 00:00:05] #foo bar: hi'' else None),
      zero_pad_year = False,
      http = (\<lambda>u ps. Response 200 ''OK'' u ''[2024-01-01 00:00:05] #foo bar: hi''),
      disk = (\<lambda>p. WriteOk), mkdir = (\<lambda>p. None), trace = []\<rparr>"

text \<open>The service answers, and the disk is full: the file is made, the write fails.\<close>

definition world_disk_full :: world where
  "world_disk_full =
     \<lparr>files = (\<lambda>p. None), zero_pad_year = False,
      http = (\<lambda>u ps. Response 200 ''OK'' u ''[2024-01-01 00:00:05] #foo bar: hi''),
      disk = (\<lambda>p. WriteRaises (Exc OSError ''[Errno 28] No space left on device'')),
      mkdir = (\<lambda>p. None), trace = []\<rparr>"

text \<open>The request is interrupted: an exception that no \<open>except\<close> clause of the task
  catches.\<close>

definition world_interrupted :: world where
  "world_interrupted =
     \<lparr>files = (\<lambda>p. None), zero_pad_year = False,
      http = (\<lambda>u ps. GetRaises (Exc KeyboardInterrupt [])),
      disk = (\<lambda>p. WriteOk), mkdir = (\<lambda>p. None), trace = []\<rparr>"


definition console_ascii :: console where
  "console_ascii =
     (\<lambda>s. if list_all (\<lambda>c. code c < 128) s then None
          else Some (Exc UnicodeEncodeError ''ordinal not in range(128)''))"

section \<open>Evaluation\<close>

lemmas chr_defs = code_def is_digit_def is_space_def is_word_def digit_val_def digit_chr_def

lemmas dt_defs = is_leap_def days_in_month_def mk_datetime_def dt_key_def dt_le_def
  add_one_day_def

lemmas sp_defs = strptime_def re_match_def directive_rx_def rep_counts_def
  strptime_default_def set_field_def py_int_def strip_def digits_val_def

lemma pad_numeral: "pad (numeral k) n = pad (pred_numeral k) (n div 10) @ [digit_chr n]"
proof -
  have "pad (Suc (pred_numeral k)) n = pad (pred_numeral k) (n div 10) @ [digit_chr n]"
    by (rule pad.simps(2))
  then show ?thesis by (simp only: numeral_eq_Suc [of k, symmetric])
qed

lemma year_str_2024: "year_str zp 2024 = ''2024''"
  by (cases zp) (simp_all add: year_str_def str_nat_def pad_numeral digit_chr_def)

lemma strptime_dmy_20240101:
  "strptime ''01/01/2024'' ''%d/%m/%Y''
     = Inr \<lparr>year = 2024, month = 1, day = 1, hour = 0, minute = 0, second = 0\<rparr>"
  by (simp add: sp_defs chr_defs dt_defs)

lemma strptime_dmy_20240102:
  "strptime ''02/01/2024'' ''%d/%m/%Y''
     = Inr \<lparr>year = 2024, month = 1, day = 2, hour = 0, minute = 0, second = 0\<rparr>"
  by (simp add: sp_defs chr_defs dt_defs)

lemma strptime_dmy_99991231:
  "strptime ''31/12/9999'' ''%d/%m/%Y''
     = Inr \<lparr>year = 9999, month = 12, day = 31, hour = 0, minute = 0, second = 0\<rparr>"
  by (simp add: sp_defs chr_defs dt_defs)

lemma generate_date_list_20240101:
  "generate_date_list zp ''01/01/2024'' ''01/01/2024'' = Inr [''2024-01-01'']"
  by (simp add: generate_date_list_def date_loop.simps strptime_dmy_20240101 dt_defs
      year_str_2024 pad_numeral digit_chr_def)

section \<open>The date list\<close>

text \<open>
  C1, as the code has it. The claim is that a range whose start is after its end fails
  with an invalid-range error. The function compares nothing before its loop: when the
  start date is after the end date the loop body never runs and the call returns the
  empty list.
\<close>

theorem generate_date_list_start_after_end:
  assumes "strptime start_date_str ''%d/%m/%Y'' = Inr start_date"
    and "strptime end_date_str ''%d/%m/%Y'' = Inr end_date"
    and "\<not> dt_le start_date end_date"
  shows "generate_date_list zp start_date_str end_date_str = Inr []"
  using assms by (simp add: generate_date_list_def date_loop.simps)

theorem generate_date_list_start_after_end_witness:
  "generate_date_list False ''02/01/2024'' ''01/01/2024'' = Inr []"
  by (rule generate_date_list_start_after_end [OF strptime_dmy_20240102 strptime_dmy_20240101])
     (simp add: dt_defs)

text \<open>C1 as stated fails: 2 January 2024 is after 1 January 2024, both parse, and the
  call returns a list (the empty one), not an error.\<close>

theorem generate_date_list_reversed_returns:
  "strptime ''02/01/2024'' ''%d/%m/%Y''
     = Inr \<lparr>year = 2024, month = 1, day = 2, hour = 0, minute = 0, second = 0\<rparr>
   \<and> strptime ''01/01/2024'' ''%d/%m/%Y''
     = Inr \<lparr>year = 2024, month = 1, day = 1, hour = 0, minute = 0, second = 0\<rparr>
   \<and> \<not> dt_le \<lparr>year = 2024, month = 1, day = 2, hour = 0, minute = 0, second = 0\<rparr>
              \<lparr>year = 2024, month = 1, day = 1, hour = 0, minute = 0, second = 0\<rparr>
   \<and> generate_date_list False ''02/01/2024'' ''01/01/2024'' = Inr []
   \<and> generate_date_list True ''02/01/2024'' ''01/01/2024'' = Inr []"
  by (simp add: strptime_dmy_20240101 strptime_dmy_20240102 generate_date_list_def
        date_loop.simps dt_defs)

lemma days_before_month_numeral:
  "days_before_month y (numeral k)
     = days_before_month y (pred_numeral k) + days_in_month y (pred_numeral k)"
proof -
  have "days_before_month y (Suc (pred_numeral k))
     = days_before_month y (pred_numeral k) + days_in_month y (pred_numeral k)"
    by (rule days_before_month.simps(2))
  then show ?thesis by (simp only: numeral_eq_Suc [of k, symmetric])
qed

lemma days_before_month_12:
  "days_before_month y 12 = (if is_leap y then 335 else 334)"
  by (simp add: days_before_month_numeral days_in_month_def)

lemma year_length_arith:
  fixes a b c n :: nat
  assumes "b \<le> a"
  shows "365 + n + a - b + c = n + a - b + c + 365"
    and "365 + n + (a + 1) - b + c = n + a - b + c + 366"
    and "365 + n + (a + 1) - (b + 1) + c = n + a - b + c + 365"
    and "365 + n + (a + 1) - (b + 1) + (c + 1) = n + a - b + c + 366"
  using assms by linarith+

lemma mod_zero_trans:
  fixes a b n :: nat
  assumes "a dvd b" and "n mod b = 0"
  shows "n mod a = 0"
proof -
  from assms(2) have "b dvd n" by (simp add: mod_eq_0_iff_dvd)
  with assms(1) have "a dvd n" by (rule dvd_trans)
  then show ?thesis by (simp add: mod_eq_0_iff_dvd)
qed

lemma days_before_year_Suc:
  assumes "1 \<le> y"
  shows "days_before_year (Suc y) = days_before_year y + (if is_leap y then 366 else 365)"
proof -
  from assms obtain q where y: "y = Suc q" by (cases y) auto
  define a b c where "a = q div 4" and "b = q div 100" and "c = q div 400"
  define A B C where "A = Suc q div 4" and "B = Suc q div 100" and "C = Suc q div 400"
  have le: "b \<le> a" unfolding a_def b_def by (simp add: div_le_mono2)
  have d4: "A = (if Suc q mod 4 = 0 then a + 1 else a)"
    and d100: "B = (if Suc q mod 100 = 0 then b + 1 else b)"
    and d400: "C = (if Suc q mod 400 = 0 then c + 1 else c)"
    unfolding a_def b_def c_def A_def B_def C_def by (simp_all add: div_Suc)
  have m1: "Suc q mod 400 = 0 \<Longrightarrow> Suc q mod 100 = 0"
    by (rule mod_zero_trans [of 100 400]) simp_all
  have m2: "Suc q mod 100 = 0 \<Longrightarrow> Suc q mod 4 = 0"
    by (rule mod_zero_trans [of 4 100]) simp_all
  have l: "days_before_year (Suc y) = 365 + q * 365 + A - B + C"
    by (simp add: y days_before_year_def A_def B_def C_def)
  have r: "days_before_year y = q * 365 + a - b + c"
    by (simp add: y days_before_year_def a_def b_def c_def)
  have leap: "is_leap y = (Suc q mod 4 = 0 \<and> (Suc q mod 100 \<noteq> 0 \<or> Suc q mod 400 = 0))"
    by (simp only: is_leap_def y)
  note ar = year_length_arith [OF le, of "q * 365" c]
  consider (n4) "Suc q mod 4 \<noteq> 0"
    | (n100) "Suc q mod 4 = 0" "Suc q mod 100 \<noteq> 0"
    | (n400) "Suc q mod 100 = 0" "Suc q mod 400 \<noteq> 0"
    | (by400) "Suc q mod 400 = 0"
    by blast
  then show ?thesis
  proof cases
    case n4
    from n4 m2 have h100: "Suc q mod 100 \<noteq> 0" by (rule contrapos_nn)
    from h100 m1 have h400: "Suc q mod 400 \<noteq> 0" by (rule contrapos_nn)
    from n4 h100 h400 have "A = a" "B = b" "C = c" "\<not> is_leap y"
      unfolding d4 d100 d400 leap by simp_all
    then show ?thesis unfolding l r using ar(1) by (simp only: if_False)
  next
    case n100
    from n100(2) m1 have h400: "Suc q mod 400 \<noteq> 0" by (rule contrapos_nn)
    from n100 h400 have "A = a + 1" "B = b" "C = c" "is_leap y"
      unfolding d4 d100 d400 leap by simp_all
    then show ?thesis unfolding l r using ar(2) by (simp only: if_True)
  next
    case n400
    from n400(1) have h4: "Suc q mod 4 = 0" by (rule m2)
    from n400 h4 have "A = a + 1" "B = b + 1" "C = c" "\<not> is_leap y"
      unfolding d4 d100 d400 leap by simp_all
    then show ?thesis unfolding l r using ar(3) by (simp only: if_False)
  next
    case by400
    from by400 have h100: "Suc q mod 100 = 0" by (rule m1)
    from h100 have h4: "Suc q mod 4 = 0" by (rule m2)
    from by400 h100 h4 have "A = a + 1" "B = b + 1" "C = c + 1" "is_leap y"
      unfolding d4 d100 d400 leap by simp_all
    then show ?thesis unfolding l r using ar(4) by (simp only: if_True)
  qed
qed

lemma days_in_month_ge:
  "1 \<le> m \<Longrightarrow> m \<le> 12 \<Longrightarrow> 28 \<le> days_in_month y m"
  by (simp add: days_in_month_def)

lemma add_one_day_valid:
  assumes a: "add_one_day d = Inr d'" and v: "valid_datetime d"
  shows "valid_datetime d' \<and> hour d' = hour d \<and> minute d' = minute d \<and> second d' = second d"
proof -
  consider (day) "day d < days_in_month (year d) (month d)"
    | (month) "\<not> day d < days_in_month (year d) (month d)" "month d < 12"
    | (year) "\<not> day d < days_in_month (year d) (month d)" "\<not> month d < 12"
    by blast
  then show ?thesis
  proof cases
    case day
    with a have "d' = d\<lparr>day := day d + 1\<rparr>" by (simp add: add_one_day_def)
    with v day show ?thesis by (simp add: valid_datetime_def)
  next
    case month
    with a have d': "d' = d\<lparr>month := month d + 1, day := 1\<rparr>" by (simp add: add_one_day_def)
    from v month have "1 \<le> month d + 1" "month d + 1 \<le> 12" by (simp_all add: valid_datetime_def)
    from days_in_month_ge [OF this, of "year d"] v d' month show ?thesis
      by (simp add: valid_datetime_def)
  next
    case year
    with a have y: "year d < 9999"
      and d': "d' = d\<lparr>year := year d + 1, month := 1, day := 1\<rparr>"
      by (auto simp: add_one_day_def split: if_splits)
    have "28 \<le> days_in_month (year d + 1) 1" by (rule days_in_month_ge) simp_all
    with v d' y show ?thesis by (simp add: valid_datetime_def)
  qed
qed


lemma add_one_day_ordinal:
  assumes a: "add_one_day d = Inr d'" and v: "valid_datetime d"
  shows "toordinal d' = toordinal d + 1"
proof -
  consider (day) "day d < days_in_month (year d) (month d)"
    | (month) "\<not> day d < days_in_month (year d) (month d)" "month d < 12"
    | (year) "\<not> day d < days_in_month (year d) (month d)" "\<not> month d < 12"
    by blast
  then show ?thesis
  proof cases
    case day
    with a have "d' = d\<lparr>day := day d + 1\<rparr>" by (simp add: add_one_day_def)
    then show ?thesis by (simp add: toordinal_def)
  next
    case month
    with a have d': "d' = d\<lparr>month := month d + 1, day := 1\<rparr>" by (simp add: add_one_day_def)
    from month v have "day d = days_in_month (year d) (month d)"
      by (simp add: valid_datetime_def)
    with d' show ?thesis by (simp add: toordinal_def)
  next
    case year
    with a have d': "d' = d\<lparr>year := year d + 1, month := 1, day := 1\<rparr>"
      by (auto simp: add_one_day_def split: if_splits)
    from year v have m: "month d = 12" and y1: "1 \<le> year d"
      by (simp_all add: valid_datetime_def)
    from year v m have dd: "day d = 31"
      by (simp add: valid_datetime_def days_in_month_def)
    have "toordinal d' = days_before_year (Suc (year d)) + 1"
      using d' by (simp add: toordinal_def days_in_month_def)
    also have "\<dots> = days_before_year (year d) + (if is_leap (year d) then 366 else 365) + 1"
      by (simp only: days_before_year_Suc [OF y1])
    also have "\<dots> = toordinal d + 1"
      using m dd by (simp add: toordinal_def days_before_month_12)
    finally show ?thesis .
  qed
qed

lemma add_one_day_exists:
  assumes "valid_datetime d" and "\<not> max_day d"
  shows "\<exists>d'. add_one_day d = Inr d'"
proof (cases "day d < days_in_month (year d) (month d) \<or> month d < 12 \<or> year d < 9999")
  case True
  then show ?thesis by (auto simp: add_one_day_def)
next
  case False
  with assms(1) have "year d = 9999" "month d = 12"
    by (simp_all add: valid_datetime_def)
  moreover from this False assms(1) have "day d = 31"
    by (simp add: valid_datetime_def days_in_month_def)
  ultimately show ?thesis using assms(2) by (simp add: max_day_def)
qed

lemma dt_le_midnight:
  assumes "midnight a" and "midnight b"
  shows "dt_le a b = (year a < year b \<or> (year a = year b \<and> (month a < month b
            \<or> (month a = month b \<and> day a \<le> day b))))"
  using assms by (auto simp: dt_le_def dt_key_def midnight_def)

lemma add_one_day_le:
  assumes a: "add_one_day d = Inr d'" and vd: "valid_datetime d" and ve: "valid_datetime e"
    and md: "midnight d" and me: "midnight e" and le: "dt_le d e" and ne: "d \<noteq> e"
  shows "dt_le d' e"
proof -
  from add_one_day_valid [OF a vd] md have md': "midnight d'" by (simp add: midnight_def)
  from md me ne have ne': "year d \<noteq> year e \<or> month d \<noteq> month e \<or> day d \<noteq> day e"
    by (cases d; cases e) (auto simp: midnight_def)
  note le' = le [unfolded dt_le_midnight [OF md me]]
  from ve have e: "day e \<le> days_in_month (year e) (month e)" "1 \<le> day e" "month e \<le> 12"
    "1 \<le> month e"
    by (simp_all add: valid_datetime_def)
  consider (day) "day d < days_in_month (year d) (month d)"
    | (month) "\<not> day d < days_in_month (year d) (month d)" "month d < 12"
    | (year) "\<not> day d < days_in_month (year d) (month d)" "\<not> month d < 12"
    by blast
  then show ?thesis
  proof cases
    case day
    with a have d': "d' = d\<lparr>day := day d + 1\<rparr>" by (simp add: add_one_day_def)
    show ?thesis
      unfolding dt_le_midnight [OF md' me] using d' le' ne' by auto
  next
    case month
    with a have d': "d' = d\<lparr>month := month d + 1, day := 1\<rparr>" by (simp add: add_one_day_def)
    show ?thesis
      unfolding dt_le_midnight [OF md' me] using d' le' ne' e month by auto
  next
    case year
    with a have d': "d' = d\<lparr>year := year d + 1, month := 1, day := 1\<rparr>"
      by (auto simp: add_one_day_def split: if_splits)
    show ?thesis
      unfolding dt_le_midnight [OF md' me] using d' le' ne' e year by auto
  qed
qed


lemma add_one_day_after:
  assumes a: "add_one_day d = Inr d'" and vd: "valid_datetime d" and md: "midnight d"
  shows "\<not> dt_le d' d"
proof -
  from add_one_day_valid [OF a vd] md have md': "midnight d'" by (simp add: midnight_def)
  from vd have e: "day d \<le> days_in_month (year d) (month d)" "1 \<le> day d" "month d \<le> 12"
    by (simp_all add: valid_datetime_def)
  from a have "d' = d\<lparr>day := day d + 1\<rparr> \<or> d' = d\<lparr>month := month d + 1, day := 1\<rparr>
      \<or> d' = d\<lparr>year := year d + 1, month := 1, day := 1\<rparr>"
    by (auto simp: add_one_day_def split: if_splits)
  then show ?thesis
    unfolding dt_le_midnight [OF md' md] by auto
qed

lemma max_day_last:
  assumes "valid_datetime e" and "midnight d" and "midnight e" and "dt_le d e" and "max_day d"
  shows "d = e"
proof -
  have "days_in_month (year e) (month e) \<le> 31" by (simp add: days_in_month_def)
  with assms(1) have e: "year e \<le> 9999" "month e \<le> 12" "day e \<le> 31"
    by (simp_all add: valid_datetime_def)
  from assms(4) [unfolded dt_le_midnight [OF assms(2,3)]] assms(5) e
  have "year d = year e" "month d = month e" "day d = day e"
    by (auto simp: max_day_def)
  with assms(2,3) show ?thesis by (cases d; cases e) (simp add: midnight_def)
qed

lemma date_loop_range:
  shows "valid_datetime e \<Longrightarrow> midnight e \<Longrightarrow> \<not> max_day e \<Longrightarrow>
     valid_datetime d \<Longrightarrow> midnight d \<Longrightarrow> dt_le d e \<Longrightarrow>
     \<exists>L. date_loop zp d e acc = Inr (acc @ map (\<lambda>x. strftime zp x ''%Y-%m-%d'') L)
       \<and> L \<noteq> [] \<and> hd L = d \<and> last L = e
       \<and> length L = toordinal e + 1 - toordinal d \<and> toordinal d \<le> toordinal e
       \<and> (\<forall>i < length L. valid_datetime (L ! i) \<and> midnight (L ! i)
              \<and> toordinal (L ! i) = toordinal d + i)"
proof (induction zp d e acc rule: date_loop.induct)
  case (1 zp d e acc)
  note ve = "1.prems"(1) and me = "1.prems"(2) and nm = "1.prems"(3)
  note vd = "1.prems"(4) and md = "1.prems"(5) and le = "1.prems"(6)
  have nmd: "\<not> max_day d"
  proof
    assume "max_day d"
    from max_day_last [OF ve md me le this] nm this show False by simp
  qed
  from add_one_day_exists [OF vd nmd] obtain d' where a: "add_one_day d = Inr d'" ..
  from add_one_day_valid [OF a vd] md have vd': "valid_datetime d'" and md': "midnight d'"
    by (simp_all add: midnight_def)
  note o = add_one_day_ordinal [OF a vd]
  have step: "date_loop zp d e acc = date_loop zp d' e (acc @ [strftime zp d ''%Y-%m-%d''])"
    using le a by (subst date_loop.simps) simp
  show ?case
  proof (cases "d = e")
    case True
    from add_one_day_after [OF a vd md] True have "\<not> dt_le d' e" by simp
    then have "date_loop zp d' e (acc @ [strftime zp d ''%Y-%m-%d'']) = Inr (acc @ [strftime zp d ''%Y-%m-%d''])"
      by (subst date_loop.simps) simp
    with step True vd md show ?thesis
      by (intro exI [of _ "[d]"]) simp
  next
    case False
    from add_one_day_le [OF a vd ve md me le False] have le': "dt_le d' e" .
    from "1.IH" [OF le a ve me nm vd' md' le'] obtain L where
      run: "date_loop zp d' e (acc @ [strftime zp d ''%Y-%m-%d''])
              = Inr ((acc @ [strftime zp d ''%Y-%m-%d'']) @ map (\<lambda>x. strftime zp x ''%Y-%m-%d'') L)"
      and L: "L \<noteq> []" "hd L = d'" "last L = e"
      and len: "length L = toordinal e + 1 - toordinal d'" "toordinal d' \<le> toordinal e"
      and el: "\<forall>i < length L. valid_datetime (L ! i) \<and> midnight (L ! i)
              \<and> toordinal (L ! i) = toordinal d' + i"
      by blast
    have el': "\<forall>i < length (d # L). valid_datetime ((d # L) ! i) \<and> midnight ((d # L) ! i)
              \<and> toordinal ((d # L) ! i) = toordinal d + i"
    proof (intro allI impI)
      fix i
      assume i: "i < length (d # L)"
      show "valid_datetime ((d # L) ! i) \<and> midnight ((d # L) ! i)
              \<and> toordinal ((d # L) ! i) = toordinal d + i"
      proof (cases i)
        case 0
        with vd md show ?thesis by simp
      next
        case (Suc j)
        with i have "j < length L" by simp
        with el o Suc show ?thesis by simp
      qed
    qed
    from step run have "date_loop zp d e acc = Inr (acc @ map (\<lambda>x. strftime zp x ''%Y-%m-%d'') (d # L))"
      by simp
    moreover from L have "d # L \<noteq> []" "hd (d # L) = d" "last (d # L) = e" by simp_all
    moreover from len o have "length (d # L) = toordinal e + 1 - toordinal d"
      "toordinal d \<le> toordinal e" by simp_all
    ultimately show ?thesis using el' by blast
  qed
qed

lemma date_loop_overflow:
  "valid_datetime e \<Longrightarrow> midnight e \<Longrightarrow> max_day e \<Longrightarrow>
   valid_datetime d \<Longrightarrow> midnight d \<Longrightarrow> dt_le d e \<Longrightarrow>
   date_loop zp d e acc = Inl (Exc OverflowError ''date value out of range'')"
proof (induction zp d e acc rule: date_loop.induct)
  case (1 zp d e acc)
  note ve = "1.prems"(1) and me = "1.prems"(2) and mx = "1.prems"(3)
  note vd = "1.prems"(4) and md = "1.prems"(5) and le = "1.prems"(6)
  show ?case
  proof (cases "d = e")
    case True
    with mx have "add_one_day d = Inl (Exc OverflowError ''date value out of range'')"
      by (simp add: add_one_day_def max_day_def days_in_month_def)
    with le show ?thesis by (subst date_loop.simps) simp
  next
    case False
    have "\<not> max_day d"
    proof
      assume "max_day d"
      from max_day_last [OF ve md me le this] False show False by simp
    qed
    from add_one_day_exists [OF vd this] obtain d' where a: "add_one_day d = Inr d'" ..
    from add_one_day_valid [OF a vd] md have vd': "valid_datetime d'" and md': "midnight d'"
      by (simp_all add: midnight_def)
    from add_one_day_le [OF a vd ve md me le False] have le': "dt_le d' e" .
    from "1.IH" [OF le a ve me mx vd' md' le'] le a show ?thesis
      by (subst date_loop.simps) simp
  qed
qed

lemma mk_datetime_valid: "mk_datetime d0 = Inr d \<Longrightarrow> d = d0 \<and> valid_datetime d"
  by (auto simp: mk_datetime_def valid_datetime_def split: if_splits)

lemma set_fields_time:
  "set_fields xs d0 = Inr d \<Longrightarrow>
   CHR ''H'' \<notin> fst ` set xs \<Longrightarrow> CHR ''M'' \<notin> fst ` set xs \<Longrightarrow> CHR ''S'' \<notin> fst ` set xs \<Longrightarrow>
   hour d = hour d0 \<and> minute d = minute d0 \<and> second d = second d0"
proof (induction xs d0 rule: set_fields.induct)
  case (1 d0)
  then show ?case by simp
next
  case (2 x g rest d0)
  from "2.prems"(1) obtain n where n: "py_int g = Inr n"
    and r: "set_fields rest (set_field x n d0) = Inr d"
    by (auto split: sum.splits)
  from "2.prems"(2-4) have x: "x \<noteq> CHR ''H''" "x \<noteq> CHR ''M''" "x \<noteq> CHR ''S''"
    and rest: "CHR ''H'' \<notin> fst ` set rest" "CHR ''M'' \<notin> fst ` set rest"
      "CHR ''S'' \<notin> fst ` set rest"
    by auto
  from "2.IH" [OF n r rest] x show ?case by (simp add: set_field_def)
qed

lemma format_rx_dmy:
  "format_rx ''%d/%m/%Y''
     = Some ([GOpen, the (directive_rx CHR ''d''), GClose, One (Lit CHR ''/''),
              GOpen, the (directive_rx CHR ''m''), GClose, One (Lit CHR ''/''),
              GOpen, the (directive_rx CHR ''Y''), GClose], ''dmY'')"
  by (simp add: directive_rx_def chr_defs)

lemma strptime_dmy_valid:
  assumes "strptime s ''%d/%m/%Y'' = Inr d"
  shows "valid_datetime d \<and> midnight d"
proof -
  from assms [unfolded strptime_def format_rx_dmy]
  obtain gs d0 where sf: "set_fields (zip ''dmY'' gs) strptime_default = Inr d0"
    and mk: "mk_datetime d0 = Inr d"
    by (auto split: option.splits prod.splits if_splits sum.splits)
  have k: "fst ` set (zip ''dmY'' gs) \<subseteq> set ''dmY''"
    by (auto dest: set_zip_leftD)
  then have "CHR ''H'' \<notin> fst ` set (zip ''dmY'' gs)" "CHR ''M'' \<notin> fst ` set (zip ''dmY'' gs)"
    "CHR ''S'' \<notin> fst ` set (zip ''dmY'' gs)"
    by auto
  from set_fields_time [OF sf this] have "midnight d0"
    by (simp add: midnight_def strptime_default_def)
  with mk_datetime_valid [OF mk] show ?thesis by auto
qed

text \<open>
  What the function does for a range in order whose end is not 9999-12-31: the dates
  from start to end, one per day, formatted.
\<close>

lemma generate_date_list_range:
  assumes s: "strptime start_date_str ''%d/%m/%Y'' = Inr start_date"
    and e: "strptime end_date_str ''%d/%m/%Y'' = Inr end_date"
    and le: "dt_le start_date end_date" and nm: "\<not> max_day end_date"
  shows "\<exists>L. generate_date_list zp start_date_str end_date_str
                = Inr (map (\<lambda>x. strftime zp x ''%Y-%m-%d'') L)
       \<and> L \<noteq> [] \<and> hd L = start_date \<and> last L = end_date
       \<and> length L = toordinal end_date - toordinal start_date + 1
       \<and> (\<forall>i < length L. valid_datetime (L ! i) \<and> midnight (L ! i)
              \<and> toordinal (L ! i) = toordinal start_date + i)"
proof -
  from strptime_dmy_valid [OF s] strptime_dmy_valid [OF e]
  have v: "valid_datetime start_date" "midnight start_date" "valid_datetime end_date"
    "midnight end_date"
    by simp_all
  from date_loop_range [OF v(3,4) nm v(1,2) le, of zp "[]"] obtain L where
    "date_loop zp start_date end_date [] = Inr (map (\<lambda>x. strftime zp x ''%Y-%m-%d'') L)"
    "L \<noteq> []" "hd L = start_date" "last L = end_date"
    "length L = toordinal end_date + 1 - toordinal start_date"
    "toordinal start_date \<le> toordinal end_date"
    "\<forall>i < length L. valid_datetime (L ! i) \<and> midnight (L ! i)
              \<and> toordinal (L ! i) = toordinal start_date + i"
    by auto
  then show ?thesis
    using s e by (intro exI [of _ L]) (simp add: generate_date_list_def)
qed

text \<open>And when the end is 9999-12-31: the loop appends that day and then adds a day to
  it, which no \<open>datetime\<close> can hold.\<close>

lemma generate_date_list_overflow:
  assumes s: "strptime start_date_str ''%d/%m/%Y'' = Inr start_date"
    and e: "strptime end_date_str ''%d/%m/%Y'' = Inr end_date"
    and le: "dt_le start_date end_date" and mx: "max_day end_date"
  shows "generate_date_list zp start_date_str end_date_str
           = Inl (Exc OverflowError ''date value out of range'')"
proof -
  from strptime_dmy_valid [OF s] strptime_dmy_valid [OF e]
  have v: "valid_datetime start_date" "midnight start_date" "valid_datetime end_date"
    "midnight end_date"
    by simp_all
  from date_loop_overflow [OF v(3,4) mx v(1,2) le] s e show ?thesis
    by (simp add: generate_date_list_def)
qed

text \<open>Years below 1000 are read with four digits and written as the platform writes
  them.\<close>

lemma strptime_dmy_09991231:
  "strptime ''31/12/0999'' ''%d/%m/%Y''
     = Inr \<lparr>year = 999, month = 12, day = 31, hour = 0, minute = 0, second = 0\<rparr>"
  by (simp add: sp_defs chr_defs dt_defs)

lemma generate_date_list_year_999:
  "generate_date_list False ''31/12/0999'' ''31/12/0999'' = Inr [''999-12-31'']
   \<and> generate_date_list True ''31/12/0999'' ''31/12/0999'' = Inr [''0999-12-31'']"
  by (simp add: strptime_dmy_09991231 generate_date_list_def date_loop.simps dt_defs
      year_str_def str_nat_def pad_numeral digit_chr_def)

text \<open>
  C4 fails on the code at the last day a \<open>datetime\<close> can hold. The dates 31/12/9999 and
  31/12/9999 are valid and in order, the claim promises the one-entry list of that day;
  the loop appends the day, then \<open>current_date += timedelta(days=1)\<close> raises
  \<open>OverflowError\<close> before the condition is tested again, and no list is returned.
\<close>

theorem generate_date_list_last_day:
  "strptime ''31/12/9999'' ''%d/%m/%Y''
     = Inr \<lparr>year = 9999, month = 12, day = 31, hour = 0, minute = 0, second = 0\<rparr>
   \<and> dt_le \<lparr>year = 9999, month = 12, day = 31, hour = 0, minute = 0, second = 0\<rparr>
           \<lparr>year = 9999, month = 12, day = 31, hour = 0, minute = 0, second = 0\<rparr>
   \<and> generate_date_list False ''31/12/9999'' ''31/12/9999''
       = Inl (Exc OverflowError ''date value out of range'')
   \<and> generate_date_list True ''31/12/9999'' ''31/12/9999''
       = Inl (Exc OverflowError ''date value out of range'')"
  by (simp add: strptime_dmy_99991231 generate_date_list_def date_loop.simps dt_defs)

section \<open>The line parser\<close>

lemma first_some_Some:
  "first_some f xs = Some r \<Longrightarrow> \<exists>x \<in> set xs. f x = Some r"
  by (induction xs) (auto split: option.splits)

lemma rx_step_Rep:
  assumes "rx_step (Rep c m g) k s cp = Some r"
  shows "\<exists>i. m \<le> i \<and> i \<le> length (takeWhile (cmatch c) s)
            \<and> k (drop i s) (cap_add (take i s) cp) = Some r"
proof -
  from assms obtain i where "i \<in> set (rep_counts m (length (takeWhile (cmatch c) s)) g)"
    and "k (drop i s) (cap_add (take i s) cp) = Some r"
    by (auto dest: first_some_Some)
  then show ?thesis by (auto simp: rep_counts_def split: if_splits)
qed

lemma take_takeWhile_all:
  "i \<le> length (takeWhile P s) \<Longrightarrow> \<forall>x \<in> set (take i s). P x"
proof (induction s arbitrary: i)
  case Nil then show ?case by simp
next
  case (Cons a s)
  then show ?case by (cases i) (auto split: if_splits)
qed

lemma timestamp_rx_match:
  assumes "re_match timestamp_rx line = Some (gs, after)"
  shows "\<exists>ts rest. line = CHR ''['' # ts @ CHR '']'' # rest @ after \<and> gs = [ts, rest]
           \<and> rest \<noteq> [] \<and> CHR 0x0A \<notin> set ts \<and> CHR 0x0A \<notin> set rest"
proof -
  let ?r2 = "[GClose, One (Lit CHR '']''), GOpen, Rep Dot 1 True, GClose]"
  from assms obtain xs where line: "line = CHR ''['' # xs"
    and m1: "rx_step (Rep Dot 0 False) (rmatch ?r2) xs ([], Some []) = Some (gs, after)"
    by (auto simp: re_match_def timestamp_rx_def split: list.splits if_splits)
  from rx_step_Rep [OF m1] obtain i where i: "i \<le> length (takeWhile (cmatch Dot) xs)"
    and m2: "rmatch ?r2 (drop i xs) ([], Some (take i xs)) = Some (gs, after)"
    by auto
  from m2 obtain ys where ys: "drop i xs = CHR '']'' # ys"
    and m3: "rx_step (Rep Dot 1 True) (rmatch [GClose]) ys ([take i xs], Some []) = Some (gs, after)"
    by (auto split: list.splits if_splits)
  from rx_step_Rep [OF m3] obtain j where j: "1 \<le> j" "j \<le> length (takeWhile (cmatch Dot) ys)"
    and m4: "rmatch [GClose] (drop j ys) ([take i xs], Some (take j ys)) = Some (gs, after)"
    by auto
  from m4 have gs: "gs = [take i xs, take j ys]" and after: "after = drop j ys" by auto
  have "xs = take i xs @ drop i xs" by simp
  with ys have xs: "xs = take i xs @ CHR '']'' # take j ys @ drop j ys" by simp
  from j have "ys \<noteq> []" by (cases ys) auto
  with j have ne: "take j ys \<noteq> []" by (cases ys; cases j) auto
  from take_takeWhile_all [OF i] have n1: "CHR 0x0A \<notin> set (take i xs)" by auto
  from take_takeWhile_all [OF j(2)] have n2: "CHR 0x0A \<notin> set (take j ys)" by auto
  show ?thesis
    using line xs gs after ne n1 n2 by (metis)
qed





lemma channel_user_message_rx_match:
  assumes "re_match channel_user_message_rx rest = Some (gs, after)"
  shows "\<exists>ws chan ws2 user msg.
           rest = ws @ CHR ''#'' # chan @ ws2 @ user @ CHR '':'' # msg @ after
           \<and> gs = [chan, user, msg]
           \<and> (\<forall>c \<in> set ws. is_space c)
           \<and> chan \<noteq> [] \<and> (\<forall>c \<in> set chan. is_word c)
           \<and> ws2 \<noteq> [] \<and> (\<forall>c \<in> set ws2. is_space c)
           \<and> user \<noteq> [] \<and> CHR '':'' \<notin> set user
           \<and> msg \<noteq> [] \<and> CHR 0x0A \<notin> set msg"
proof -
  have ne: "\<And>P j (zs :: string). 1 \<le> j \<Longrightarrow> j \<le> length (takeWhile P zs) \<Longrightarrow> take j zs \<noteq> []"
  proof -
    fix P j and zs :: string
    assume "1 \<le> j" "j \<le> length (takeWhile P zs)"
    then show "take j zs \<noteq> []" by (cases zs; cases j) auto
  qed
  let ?r1 = "[One (Lit CHR ''#''), GOpen, Rep Word 1 True, GClose,
      Rep Space 1 True, GOpen, Rep (NotChar CHR '':'') 1 True, GClose,
      One (Lit CHR '':''), GOpen, Rep Dot 1 True, GClose]"
  let ?r2 = "[GClose, Rep Space 1 True, GOpen, Rep (NotChar CHR '':'') 1 True, GClose,
      One (Lit CHR '':''), GOpen, Rep Dot 1 True, GClose]"
  let ?r3 = "[GOpen, Rep (NotChar CHR '':'') 1 True, GClose,
      One (Lit CHR '':''), GOpen, Rep Dot 1 True, GClose]"
  let ?r4 = "[GClose, One (Lit CHR '':''), GOpen, Rep Dot 1 True, GClose]"
  from assms have m0: "rx_step (Rep Space 0 True) (rmatch ?r1) rest ([], None) = Some (gs, after)"
    by (simp add: re_match_def channel_user_message_rx_def)
  from rx_step_Rep [OF m0] obtain i where i: "i \<le> length (takeWhile (cmatch Space) rest)"
    and m1: "rmatch ?r1 (drop i rest) ([], None) = Some (gs, after)"
    by auto
  from m1 obtain s1 where s1: "drop i rest = CHR ''#'' # s1"
    and m2: "rx_step (Rep Word 1 True) (rmatch ?r2) s1 ([], Some []) = Some (gs, after)"
    by (auto split: list.splits if_splits)
  from rx_step_Rep [OF m2] obtain j where j: "1 \<le> j" "j \<le> length (takeWhile (cmatch Word) s1)"
    and m3: "rmatch ?r2 (drop j s1) ([], Some (take j s1)) = Some (gs, after)"
    by auto
  from m3 have m4: "rx_step (Rep Space 1 True) (rmatch ?r3) (drop j s1) ([take j s1], None)
                     = Some (gs, after)"
    by simp
  let ?s2 = "drop j s1"
  from rx_step_Rep [OF m4] obtain k where k: "1 \<le> k" "k \<le> length (takeWhile (cmatch Space) ?s2)"
    and m5: "rmatch ?r3 (drop k ?s2) ([take j s1], None) = Some (gs, after)"
    by auto
  let ?s3 = "drop k ?s2"
  from m5 have m6: "rx_step (Rep (NotChar CHR '':'') 1 True) (rmatch ?r4) ?s3 ([take j s1], Some [])
                      = Some (gs, after)"
    by simp
  from rx_step_Rep [OF m6] obtain l where l: "1 \<le> l"
      "l \<le> length (takeWhile (cmatch (NotChar CHR '':'')) ?s3)"
    and m7: "rmatch ?r4 (drop l ?s3) ([take j s1], Some (take l ?s3)) = Some (gs, after)"
    by auto
  from m7 obtain s4 where s4: "drop l ?s3 = CHR '':'' # s4"
    and m8: "rx_step (Rep Dot 1 True) (rmatch [GClose]) s4 ([take j s1, take l ?s3], Some [])
               = Some (gs, after)"
    by (auto split: list.splits if_splits)
  from rx_step_Rep [OF m8] obtain n where n: "1 \<le> n" "n \<le> length (takeWhile (cmatch Dot) s4)"
    and m9: "rmatch [GClose] (drop n s4) ([take j s1, take l ?s3], Some (take n s4)) = Some (gs, after)"
    by auto
  from m9 have gs: "gs = [take j s1, take l ?s3, take n s4]" and after: "after = drop n s4"
    by auto
  have "rest = take i rest @ drop i rest" by (simp only: append_take_drop_id)
  also have "drop i rest = CHR ''#'' # (take j s1 @ ?s2)"
    using s1 by (simp only: append_take_drop_id)
  also have "?s2 = take k ?s2 @ ?s3" by (simp only: append_take_drop_id)
  also have "?s3 = take l ?s3 @ drop l ?s3" by (simp only: append_take_drop_id)
  also have "drop l ?s3 = CHR '':'' # (take n s4 @ drop n s4)"
    using s4 by (simp only: append_take_drop_id)
  finally have rest: "rest = take i rest @ CHR ''#'' # take j s1 @ take k ?s2 @ take l ?s3
                       @ CHR '':'' # take n s4 @ after"
    unfolding after by (simp only: append_Cons append_assoc)
  from take_takeWhile_all [OF i] have p1: "\<forall>c \<in> set (take i rest). is_space c" by auto
  from take_takeWhile_all [OF j(2)] have p2: "\<forall>c \<in> set (take j s1). is_word c" by auto
  from take_takeWhile_all [OF k(2)] have p3: "\<forall>c \<in> set (take k ?s2). is_space c" by auto
  from take_takeWhile_all [OF l(2)] have p4: "CHR '':'' \<notin> set (take l ?s3)" by auto
  from take_takeWhile_all [OF n(2)] have p5: "CHR 0x0A \<notin> set (take n s4)" by auto
  note q = ne [OF j] ne [OF k] ne [OF l] ne [OF n]
  show ?thesis
    apply (rule exI [of _ "take i rest"])
    apply (rule exI [of _ "take j s1"])
    apply (rule exI [of _ "take k ?s2"])
    apply (rule exI [of _ "take l ?s3"])
    apply (rule exI [of _ "take n s4"])
    using rest gs p1 p2 p3 p4 p5 q by blast
qed







lemma parse_example:
  "parse_chat_line stdout ''[2023-05-01 10:00:00] #foo bar: hello world''
     = Inr (Some \<lparr>row_timestamp = \<lparr>year = 2023, month = 5, day = 1, hour = 10, minute = 0, second = 0\<rparr>,
                  row_channel = ''foo'', row_username = ''bar'', row_message = ''hello world''\<rparr>)"
  by (simp add: parse_chat_line_def timestamp_rx_def channel_user_message_rx_def sp_defs chr_defs dt_defs)


text \<open>
  C9: the line of the scenario parses to the row with timestamp 2023-05-01 10:00:00,
  channel \<open>foo\<close>, user \<open>bar\<close> and message \<open>hello world\<close>. A line that does not begin
  with \<open>[\<close> gives no row, and so does every other line that is not of the form
  \<open>[\<close> timestamp \<open>]\<close> spaces \<open>#\<close> channel spaces user \<open>:\<close> message, with a timestamp that
  \<open>strptime\<close> accepts, a channel of word characters, and a user without colon: whenever a
  row comes back, the line has that form and the row holds its parts.
\<close>

theorem parse_chat_line_rows:
  "parse_chat_line stdout ''[2023-05-01 10:00:00] #foo bar: hello world''
     = Inr (Some \<lparr>row_timestamp =
                    \<lparr>year = 2023, month = 5, day = 1, hour = 10, minute = 0, second = 0\<rparr>,
                  row_channel = ''foo'', row_username = ''bar'',
                  row_message = ''hello world''\<rparr>)
   \<and> (\<forall>line. line = [] \<or> hd line \<noteq> CHR ''['' \<longrightarrow> parse_chat_line stdout line = Inr None)
   \<and> (\<forall>line row. parse_chat_line stdout line = Inr (Some row) \<longrightarrow>
        (\<exists>ts ws chan ws2 user msg after.
           line = CHR ''['' # ts @ CHR '']'' # ws @ CHR ''#'' # chan @ ws2 @ user
                    @ CHR '':'' # msg @ after
           \<and> strptime (strip ts) ''%Y-%m-%d %H:%M:%S'' = Inr (row_timestamp row)
           \<and> (\<forall>c \<in> set ws. is_space c)
           \<and> chan \<noteq> [] \<and> (\<forall>c \<in> set chan. is_word c) \<and> row_channel row = chan
           \<and> ws2 \<noteq> [] \<and> (\<forall>c \<in> set ws2. is_space c)
           \<and> user \<noteq> [] \<and> CHR '':'' \<notin> set user \<and> row_username row = strip user
           \<and> msg \<noteq> [] \<and> row_message row = strip msg))"
proof (intro conjI allI impI)
  show "parse_chat_line stdout ''[2023-05-01 10:00:00] #foo bar: hello world''
     = Inr (Some \<lparr>row_timestamp =
                    \<lparr>year = 2023, month = 5, day = 1, hour = 10, minute = 0, second = 0\<rparr>,
                  row_channel = ''foo'', row_username = ''bar'',
                  row_message = ''hello world''\<rparr>)"
    by (rule parse_example)
next
  fix line :: string
  assume "line = [] \<or> hd line \<noteq> CHR ''[''"
  then have "re_match timestamp_rx line = None"
    by (cases line) (auto simp: re_match_def timestamp_rx_def)
  then show "parse_chat_line stdout line = Inr None"
    by (simp add: parse_chat_line_def)
next
  fix line row
  assume row: "parse_chat_line stdout line = Inr (Some row)"
  then obtain gs after0 where m: "re_match timestamp_rx line = Some (gs, after0)"
    by (auto simp: parse_chat_line_def split: option.splits)
  from timestamp_rx_match [OF m] obtain ts rest where
    line: "line = CHR ''['' # ts @ CHR '']'' # rest @ after0" and gs: "gs = [ts, rest]"
    by auto
  from row m gs obtain t where t: "strptime (strip ts) ''%Y-%m-%d %H:%M:%S'' = Inr t"
    by (cases "strptime (strip ts) ''%Y-%m-%d %H:%M:%S''")
       (auto simp: parse_chat_line_def parse_handler_def split: if_splits option.splits)
  from row m gs t obtain gs2 after2 where
    m2: "re_match channel_user_message_rx rest = Some (gs2, after2)"
    by (auto simp: parse_chat_line_def split: option.splits)
  from channel_user_message_rx_match [OF m2] obtain ws chan ws2 user msg where
    rest: "rest = ws @ CHR ''#'' # chan @ ws2 @ user @ CHR '':'' # msg @ after2"
    and gs2: "gs2 = [chan, user, msg]"
    and props: "\<forall>c \<in> set ws. is_space c" "chan \<noteq> []" "\<forall>c \<in> set chan. is_word c"
      "ws2 \<noteq> []" "\<forall>c \<in> set ws2. is_space c" "user \<noteq> []" "CHR '':'' \<notin> set user" "msg \<noteq> []"
    by blast
  from row m gs t m2 gs2 have r: "row = \<lparr>row_timestamp = t, row_channel = chan,
      row_username = strip user, row_message = strip msg\<rparr>"
    by (simp add: parse_chat_line_def)
  have L: "line = CHR ''['' # ts @ CHR '']'' # ws @ CHR ''#'' # chan @ ws2 @ user
                    @ CHR '':'' # msg @ (after2 @ after0)"
    unfolding line rest by simp
  from t r have t': "strptime (strip ts) ''%Y-%m-%d %H:%M:%S'' = Inr (row_timestamp row)"
    by simp
  from r have c: "row_channel row = chan" "row_username row = strip user"
    "row_message row = strip msg"
    by simp_all
  show "\<exists>ts ws chan ws2 user msg after.
           line = CHR ''['' # ts @ CHR '']'' # ws @ CHR ''#'' # chan @ ws2 @ user
                    @ CHR '':'' # msg @ after
           \<and> strptime (strip ts) ''%Y-%m-%d %H:%M:%S'' = Inr (row_timestamp row)
           \<and> (\<forall>c \<in> set ws. is_space c)
           \<and> chan \<noteq> [] \<and> (\<forall>c \<in> set chan. is_word c) \<and> row_channel row = chan
           \<and> ws2 \<noteq> [] \<and> (\<forall>c \<in> set ws2. is_space c)
           \<and> user \<noteq> [] \<and> CHR '':'' \<notin> set user \<and> row_username row = strip user
           \<and> msg \<noteq> [] \<and> row_message row = strip msg"
    by (intro exI [of _ ts] exI [of _ ws] exI [of _ chan] exI [of _ ws2] exI [of _ user]
        exI [of _ msg] exI [of _ "after2 @ after0"] conjI)
       (rule L t' props c)+
qed

theorem parse_chat_line_rows_witness:
  "parse_chat_line console_ascii ''#foo bar: hello world'' = Inr None"
  using parse_chat_line_rows [of console_ascii, THEN conjunct2, THEN conjunct1, rule_format,
      of "''#foo bar: hello world''"]
  by simp

section \<open>Channel validation\<close>

text \<open>
  C8: \<open>validate_channel\<close> returns true exactly when the probe is answered with status
  200 and a body without the text \<open>No logs found\<close>; when the request raises a
  \<open>RequestException\<close> it returns false and raises nothing.
\<close>

theorem validate_channel_answer:
  "(fst (validate_channel channel w) = Inr True)
     = (\<exists>rs u body. http w (''https://logs.ivr.fi/channel/'' @ channel) []
                       = Response 200 rs u body \<and> \<not> sublist ''No logs found'' body)
   \<and> (\<forall>e. http w (''https://logs.ivr.fi/channel/'' @ channel) [] = GetRaises e
           \<and> exn_kind_of e = RequestException
         \<longrightarrow> fst (validate_channel channel w) = Inr False)"
  by (cases "http w (''https://logs.ivr.fi/channel/'' @ channel) []")
     (auto simp: validate_channel_def requests_get_def)

theorem validate_channel_answer_witness:
  "fst (validate_channel ''foo'' world_offline) = Inr False"
  using validate_channel_answer [of "''foo''" world_offline]
  by (simp add: world_offline_def)

section \<open>The downloader\<close>

lemmas dl_defs = download_single_day_def download_single_day_body_def fetch_and_save_def
  handle_error_def write_file_def requests_get_def emit_def Let_def

lemma download_single_day_skip:
  assumes "strptime date_str ''%Y-%m-%d'' = Inr d" and "add_one_day d = Inr d'"
    and "files w (''logs/'' @ channel @ ''_logs_'' @ date_str @ ''.txt'') \<noteq> None"
  shows "download_single_day channel date_str semaphore w
           = Some (Inr (''Skipped '' @ date_str @ '' - file exists''), emit RateLimiter w)"
  using assms by (simp add: download_single_day_def download_single_day_body_def Let_def emit_def)

lemma download_single_day_files:
  assumes "download_single_day channel date_str semaphore w = Some (r, w')"
    and "files w p \<noteq> None"
  shows "files w' p \<noteq> None"
  using assms
  by (auto simp: dl_defs
      split: sum.splits if_splits prod.splits http_result.splits write_result.splits)

lemma download_single_day_service:
  assumes "download_single_day channel date_str semaphore w = Some (r, w')"
  shows "same_service w w'"
  using assms
  by (auto simp: dl_defs same_service_def
      split: sum.splits if_splits prod.splits http_result.splits write_result.splits)

lemma download_single_day_trace:
  assumes "download_single_day channel date_str semaphore w = Some (r, w')"
  shows "trace w' = trace w @ new_events w w'
    \<and> (\<forall>c. FileWrite (report_path ch) c \<notin> set (new_events w w'))"
  using assms
  by (auto simp: dl_defs new_events_def report_path_def
      split: sum.splits if_splits prod.splits http_result.splits write_result.splits)

lemma download_single_day_succeeded:
  assumes "download_single_day channel date_str semaphore w = Some (r, w')"
    and "succeeded date_str r"
  shows "files w' (''logs/'' @ channel @ ''_logs_'' @ date_str @ ''.txt'') \<noteq> None
    \<and> (\<exists>d d'. strptime date_str ''%Y-%m-%d'' = Inr d \<and> add_one_day d = Inr d')"
  using assms
  by (auto simp: dl_defs succeeded_def
      split: sum.splits if_splits prod.splits http_result.splits write_result.splits)

lemma run_tasks_dates:
  "run_tasks channel semaphore dates w = Some (outs, w') \<Longrightarrow> map fst outs = dates"
  by (induction dates arbitrary: w outs) (auto split: option.splits prod.splits)

lemma run_tasks_files:
  "run_tasks channel semaphore dates w = Some (outs, w') \<Longrightarrow> files w p \<noteq> None
     \<Longrightarrow> files w' p \<noteq> None"
proof (induction dates arbitrary: w outs)
  case Nil
  then show ?case by simp
next
  case (Cons d dates)
  from Cons.prems(1) obtain r w1 rs where
    a: "download_single_day channel d semaphore w = Some (r, w1)"
    and b: "run_tasks channel semaphore dates w1 = Some (rs, w')"
    by (auto split: option.splits prod.splits)
  from download_single_day_files [OF a Cons.prems(2)] have "files w1 p \<noteq> None" .
  from Cons.IH [OF b this] show ?case .
qed

lemma run_tasks_service:
  "run_tasks channel semaphore dates w = Some (outs, w') \<Longrightarrow> same_service w w'"
proof (induction dates arbitrary: w outs)
  case Nil
  then show ?case by (simp add: same_service_def)
next
  case (Cons d dates)
  from Cons.prems(1) obtain r w1 rs where
    a: "download_single_day channel d semaphore w = Some (r, w1)"
    and b: "run_tasks channel semaphore dates w1 = Some (rs, w')"
    by (auto split: option.splits prod.splits)
  from download_single_day_service [OF a] Cons.IH [OF b] show ?case
    by (simp add: same_service_def)
qed

lemma new_events_trans:
  assumes "trace w1 = trace w @ new_events w w1" and "trace w2 = trace w1 @ new_events w1 w2"
  shows "new_events w w2 = new_events w w1 @ new_events w1 w2"
proof -
  from assms have "trace w2 = trace w @ (new_events w w1 @ new_events w1 w2)" by simp
  then have "drop (length (trace w)) (trace w2) = new_events w w1 @ new_events w1 w2"
    by simp
  then show ?thesis by (simp add: new_events_def)
qed

lemma run_tasks_trace:
  "run_tasks channel semaphore dates w = Some (outs, w') \<Longrightarrow>
     trace w' = trace w @ new_events w w'
     \<and> (\<forall>c. FileWrite (report_path ch) c \<notin> set (new_events w w'))"
proof (induction dates arbitrary: w outs)
  case Nil
  then show ?case by (simp add: new_events_def)
next
  case (Cons d dates)
  from Cons.prems(1) obtain r w1 rs where
    a: "download_single_day channel d semaphore w = Some (r, w1)"
    and b: "run_tasks channel semaphore dates w1 = Some (rs, w')"
    by (auto split: option.splits prod.splits)
  note t1 = download_single_day_trace [OF a, of ch] and t2 = Cons.IH [OF b]
  from t1 t2 have n: "new_events w w' = new_events w w1 @ new_events w1 w'"
    by (intro new_events_trans) simp_all
  from t1 t2 have "trace w' = trace w @ new_events w w1 @ new_events w1 w'" by simp
  with n t1 t2 show ?case by simp
qed

lemma run_tasks_succeeded:
  "run_tasks channel semaphore dates w = Some (outs, w') \<Longrightarrow>
   \<forall>(d, r) \<in> set outs. succeeded d r \<Longrightarrow>
   \<forall>date \<in> set dates.
      files w' (''logs/'' @ channel @ ''_logs_'' @ date @ ''.txt'') \<noteq> None
      \<and> (\<exists>d d'. strptime date ''%Y-%m-%d'' = Inr d \<and> add_one_day d = Inr d')"
proof (induction dates arbitrary: w outs)
  case Nil
  then show ?case by simp
next
  case (Cons d dates)
  from Cons.prems(1) obtain r w1 rs where
    a: "download_single_day channel d semaphore w = Some (r, w1)"
    and b: "run_tasks channel semaphore dates w1 = Some (rs, w')"
    and outs: "outs = (d, r) # rs"
    by (auto split: option.splits prod.splits)
  from Cons.prems(2) outs have s: "succeeded d r" and rs: "\<forall>(d, r) \<in> set rs. succeeded d r"
    by auto
  from download_single_day_succeeded [OF a s]
  have f1: "files w1 (''logs/'' @ channel @ ''_logs_'' @ d @ ''.txt'') \<noteq> None"
    and p: "\<exists>d0 d'. strptime d ''%Y-%m-%d'' = Inr d0 \<and> add_one_day d0 = Inr d'"
    by auto
  from run_tasks_files [OF b f1]
  have "files w' (''logs/'' @ channel @ ''_logs_'' @ d @ ''.txt'') \<noteq> None" .
  with p Cons.IH [OF b rs] show ?case by simp
qed

lemma run_tasks_all_skipped:
  "\<forall>date \<in> set dates.
      files w (''logs/'' @ channel @ ''_logs_'' @ date @ ''.txt'') \<noteq> None
      \<and> (\<exists>d d'. strptime date ''%Y-%m-%d'' = Inr d \<and> add_one_day d = Inr d') \<Longrightarrow>
   run_tasks channel semaphore dates w
     = Some (map (\<lambda>date. (date, Inr (''Skipped '' @ date @ '' - file exists''))) dates,
             w\<lparr>trace := trace w @ replicate (length dates) RateLimiter\<rparr>)"
proof (induction dates arbitrary: w)
  case Nil
  then show ?case by simp
next
  case (Cons d dates)
  from Cons.prems obtain d0 d' where p: "strptime d ''%Y-%m-%d'' = Inr d0" "add_one_day d0 = Inr d'"
    and f: "files w (''logs/'' @ channel @ ''_logs_'' @ d @ ''.txt'') \<noteq> None"
    by auto
  note s = download_single_day_skip [OF p f, of semaphore]
  have "\<forall>date \<in> set dates.
      files (emit RateLimiter w) (''logs/'' @ channel @ ''_logs_'' @ date @ ''.txt'') \<noteq> None
      \<and> (\<exists>d d'. strptime date ''%Y-%m-%d'' = Inr d \<and> add_one_day d = Inr d')"
    using Cons.prems by (simp add: emit_def)
  from Cons.IH [OF this] s show ?case
    by (simp add: emit_def replicate_app_Cons_same)
qed

lemma set_as_completed: "set (as_completed sched xs) = set xs"
proof (induction sched xs rule: as_completed.induct)
  case (1 sched)
  then show ?case by simp
next
  case (2 x xs)
  then show ?case by simp
next
  case (3 c sched x xs)
  let ?ys = "x # xs" and ?i = "c mod length (x # xs)"
  have i: "?i < length ?ys" by simp
  from id_take_nth_drop [OF i] have "set ?ys = insert (?ys ! ?i) (set (without ?i ?ys))"
    by (metis Un_insert_right list.simps(15) set_append without_def)
  with 3 show ?case by simp
qed

lemma accepts_Cons: "accepts (x # r) c = ((\<exists>cl \<in> set (classes_of x). cmatch cl c) \<or> accepts r c)"
  by (auto simp: accepts_def)

lemma cseq_consumed:
  "cseq b s = Some (t, rest) \<Longrightarrow> s = t @ rest \<and> (\<forall>c \<in> set t. \<exists>cl \<in> set b. cmatch cl c)"
proof (induction b s arbitrary: t rule: cseq.induct)
  case (1 s)
  then show ?case by simp
next
  case (2 c cs)
  then show ?case by simp
next
  case (3 c cs x xs)
  from "3.prems" obtain t' where m: "cmatch c x" and r: "cseq cs xs = Some (t', rest)"
    and t: "t = x # t'"
    by (auto split: if_splits option.splits)
  from "3.IH" [OF m r] m t show ?case by auto
qed

lemma rmatch_consumed:
  "rmatch r s cp = Some (gs, rest) \<Longrightarrow> \<exists>t. s = t @ rest \<and> (\<forall>c \<in> set t. accepts r c)"
proof (induction r arbitrary: s cp)
  case Nil
  then show ?case by simp
next
  case (Cons x r)
  show ?case
  proof (cases x)
    case (One cl)
    with Cons.prems obtain a xs where s: "s = a # xs" and m: "cmatch cl a"
      and k: "rmatch r xs (cap_add [a] cp) = Some (gs, rest)"
      by (auto split: list.splits if_splits)
    from Cons.IH [OF k] obtain t where "xs = t @ rest" "\<forall>c \<in> set t. accepts r c" by auto
    with s m One have "s = (a # t) @ rest \<and> (\<forall>c \<in> set (a # t). accepts (x # r) c)"
      by (auto simp: accepts_Cons)
    then show ?thesis by blast
  next
    case (Rep cl m g)
    with Cons.prems have "rx_step (Rep cl m g) (rmatch r) s cp = Some (gs, rest)" by simp
    from rx_step_Rep [OF this] obtain i where i: "i \<le> length (takeWhile (cmatch cl) s)"
      and k: "rmatch r (drop i s) (cap_add (take i s) cp) = Some (gs, rest)"
      by auto
    from Cons.IH [OF k] obtain t where t: "drop i s = t @ rest" "\<forall>c \<in> set t. accepts r c"
      by auto
    have "s = take i s @ drop i s" by simp
    with t have s: "s = (take i s @ t) @ rest" by simp
    from take_takeWhile_all [OF i] t(2) Rep
    have "\<forall>c \<in> set (take i s @ t). accepts (x # r) c"
      by (auto simp: accepts_Cons)
    with s show ?thesis by blast
  next
    case (Alts bs)
    with Cons.prems have "first_some (\<lambda>b. case cseq b s of None \<Rightarrow> None
                      | Some (t, rest) \<Rightarrow> rmatch r rest (cap_add t cp)) bs = Some (gs, rest)"
      by simp
    from first_some_Some [OF this] obtain b t0 s0 where b: "b \<in> set bs"
      and c: "cseq b s = Some (t0, s0)"
      and k: "rmatch r s0 (cap_add t0 cp) = Some (gs, rest)"
      by (auto split: option.splits)
    from cseq_consumed [OF c] have s: "s = t0 @ s0" and a: "\<forall>c \<in> set t0. \<exists>cl \<in> set b. cmatch cl c"
      by auto
    from Cons.IH [OF k] obtain t where t: "s0 = t @ rest" "\<forall>c \<in> set t. accepts r c" by auto
    from a b Alts have "\<forall>c \<in> set t0. accepts (x # r) c"
      by (fastforce simp: accepts_Cons)
    with t(2) have "\<forall>c \<in> set (t0 @ t). accepts (x # r) c" by (auto simp: accepts_Cons)
    moreover from s t(1) have "s = (t0 @ t) @ rest" by simp
    ultimately show ?thesis by blast
  next
    case GOpen
    with Cons.prems have "rmatch r s (cap_open cp) = Some (gs, rest)" by simp
    from Cons.IH [OF this] show ?thesis by (auto simp: accepts_Cons)
  next
    case GClose
    with Cons.prems have "rmatch r s (cap_close cp) = Some (gs, rest)" by simp
    from Cons.IH [OF this] show ?thesis by (auto simp: accepts_Cons)
  qed
qed

lemma format_rx_ymd:
  "format_rx ''%Y-%m-%d''
     = Some ([GOpen, the (directive_rx CHR ''Y''), GClose, One (Lit CHR ''-''),
              GOpen, the (directive_rx CHR ''m''), GClose, One (Lit CHR ''-''),
              GOpen, the (directive_rx CHR ''d''), GClose], ''Ymd'')"
  by (simp add: directive_rx_def chr_defs)

lemma strptime_ymd_no_E:
  assumes "strptime date_str ''%Y-%m-%d'' = Inr d"
  shows "CHR ''E'' \<notin> set date_str"
proof
  assume E: "CHR ''E'' \<in> set date_str"
  let ?r = "[GOpen, the (directive_rx CHR ''Y''), GClose, One (Lit CHR ''-''),
              GOpen, the (directive_rx CHR ''m''), GClose, One (Lit CHR ''-''),
              GOpen, the (directive_rx CHR ''d''), GClose]"
  have "\<exists>gs. rmatch ?r date_str ([], None) = Some (gs, [])"
    using assms [unfolded strptime_def format_rx_ymd re_match_def]
    by (auto split: option.splits prod.splits if_splits simp del: rmatch.simps)
  then obtain gs where "rmatch ?r date_str ([], None) = Some (gs, [])" ..
  from rmatch_consumed [OF this] have "\<forall>c \<in> set date_str. accepts ?r c" by simp
  with E have "accepts ?r CHR ''E''" by blast
  then show False
    by (simp add: accepts_def directive_rx_def chr_defs)
qed

lemma not_sublist_Error:
  "CHR ''E'' \<notin> set s \<Longrightarrow> \<not> sublist ''Error'' s"
  using set_mono_sublist [of "''Error''" s] by auto

lemma length_as_completed: "length (as_completed sched xs) = length xs"
proof (induction sched xs rule: as_completed.induct)
  case (3 c sched x xs)
  have "c mod length (x # xs) < length (x # xs)" by simp
  then have "length (without (c mod length (x # xs)) (x # xs)) = length xs"
    by (simp add: without_def)
  with 3 show ?case by simp
qed simp_all

lemma map_fst_dict_set:
  "map fst (dict_set k v kvs)
     = (if k \<in> fst ` set kvs then map fst kvs else map fst kvs @ [k])"
  by (induction kvs) (auto split: if_splits)

lemma keys_dict_set: "fst ` set (dict_set k v kvs) = insert k (fst ` set kvs)"
proof -
  have "set (map fst (dict_set k v kvs)) = insert k (set (map fst kvs))"
    unfolding map_fst_dict_set by auto
  then show ?thesis by simp
qed

lemma set_dict_set: "(a, b) \<in> set (dict_set k v kvs) \<Longrightarrow> (a, b) = (k, v) \<or> (a, b) \<in> set kvs"
  by (induction kvs) (auto split: if_splits)

lemma distinct_dict_set:
  "distinct (map fst kvs) \<Longrightarrow> distinct (map fst (dict_set k v kvs))"
  unfolding map_fst_dict_set by auto

lemma collect_failures_none:
  "\<forall>(d, r) \<in> set outs. \<exists>s. r = Inr s \<and> \<not> sublist ''Error'' s \<Longrightarrow>
   collect_failures outs fd = Inr fd"
  by (induction outs fd rule: collect_failures.induct) auto

lemma collect_failures_distinct:
  "collect_failures outs fd = Inr failed \<Longrightarrow> distinct (map fst fd) \<Longrightarrow> distinct (map fst failed)"
  by (induction outs fd rule: collect_failures.induct)
     (auto split: if_splits intro: distinct_dict_set)

lemma collect_failures_keys:
  "collect_failures outs fd = Inr failed \<Longrightarrow>
   fst ` set failed = fst ` set fd \<union> {d. \<exists>r. (d, r) \<in> set outs \<and> is_failure r}"
proof (induction outs fd rule: collect_failures.induct)
  case (1 fd)
  then show ?case by simp
next
  case (2 date result rest fd)
  from "2.prems" have c: "collect_failures rest
      (if sublist ''Error'' result then dict_set date result fd else fd) = Inr failed"
    by simp
  from "2.IH" [OF c] show ?case
    by (auto simp: keys_dict_set is_failure_def split: if_splits)
next
  case (3 date e rest fd)
  then have ex: "is_Exception e"
    and c: "collect_failures rest (dict_set date (exn_str e) fd) = Inr failed"
    by (simp_all split: if_splits)
  from "3.IH" [OF ex c] show ?case
    by (auto simp: keys_dict_set is_failure_def)
qed

lemma collect_failures_values:
  "collect_failures outs fd = Inr failed \<Longrightarrow> (d, m) \<in> set failed \<Longrightarrow>
   (d, m) \<in> set fd
   \<or> (\<exists>r. (d, r) \<in> set outs \<and> is_failure r \<and> (r = Inr m \<or> (\<exists>e. r = Inl e \<and> m = exn_str e)))"
proof (induction outs fd rule: collect_failures.induct)
  case (1 fd)
  then show ?case by simp
next
  case (2 date result rest fd)
  from "2.prems" have c: "collect_failures rest
      (if sublist ''Error'' result then dict_set date result fd else fd) = Inr failed"
    by simp
  from "2.IH" [OF c "2.prems"(2)] show ?case
    by (auto simp: is_failure_def dest: set_dict_set split: if_splits)
next
  case (3 date e rest fd)
  then have ex: "is_Exception e"
    and c: "collect_failures rest (dict_set date (exn_str e) fd) = Inr failed"
    by (simp_all split: if_splits)
  from "3.IH" [OF ex c "3.prems"(2)]
  consider "(d, m) \<in> set (dict_set date (exn_str e) fd)"
    | "\<exists>r. (d, r) \<in> set rest \<and> is_failure r
          \<and> (r = Inr m \<or> (\<exists>e. r = Inl e \<and> m = exn_str e))"
    by blast
  then show ?case
  proof cases
    case 1
    from set_dict_set [OF 1] show ?thesis
    proof
      assume "(d, m) = (date, exn_str e)"
      then have "(d, Inl e) \<in> set ((date, Inl e) # rest) \<and> is_failure (Inl e :: py_exception + string)
          \<and> m = exn_str e"
        by (simp add: is_failure_def)
      then show ?thesis by blast
    next
      assume "(d, m) \<in> set fd"
      then show ?thesis by simp
    qed
  next
    case 2
    then show ?thesis by auto
  qed
qed

lemma download_logs_parallel_returns:
  assumes "download_logs_parallel channel s e mw mc sched w = Some (Inr b, w')"
  obtains dates outs w1 failed where
    "mkdir w ''logs'' = None" "generate_date_list (zero_pad_year w) s e = Inr dates" "\<not> mc < 0" "\<not> mw \<le> 0"
    "run_tasks channel (nat mc) (as_completed sched dates) (emit (MkDir ''logs'') w)
       = Some (outs, w1)"
    "collect_failures outs [] = Inr failed"
    "b = \<lparr>failed_downloads = failed, outcomes = outs\<rparr>"
    "failed = [] \<and> w' = w1
     \<or> failed \<noteq> [] \<and>
        write_file (report_path channel) (concat (map report_line failed)) w1 = (Inr (), w')"
  using assms unfolding download_logs_parallel_def Let_def
  by (auto split: option.splits sum.splits if_splits prod.splits simp del: run_tasks.simps)

lemma write_file_ok:
  "write_file p c w = (Inr u, w') \<Longrightarrow>
     trace w' = trace w @ [FileWrite p c] \<and> files w' p = Some c \<and> same_service w w'"
  by (auto simp: write_file_def emit_def same_service_def split: write_result.splits)

text \<open>
  What a run that returns has written of \<open>failed_downloads_{channel}.txt\<close>: the file is
  written exactly when the failure dictionary is not empty, once, as the last action,
  with one \<open>report_line\<close> per entry; and the dictionary has one entry for each day whose
  task gave a result containing \<open>Error\<close> or raised.
\<close>

lemma failure_report:
  assumes "download_logs_parallel channel s e mw mc sched w = Some (Inr b, w')"
  shows "\<exists>pre. trace w' = trace w @ pre
            @ (if failed_downloads b = [] then []
               else [FileWrite (report_path channel)
                       (concat (map report_line (failed_downloads b)))])
      \<and> (\<forall>c. FileWrite (report_path channel) c \<notin> set pre)
      \<and> distinct (map fst (failed_downloads b))
      \<and> fst ` set (failed_downloads b) = {d. \<exists>r. (d, r) \<in> set (outcomes b) \<and> is_failure r}
      \<and> (\<forall>(d, m) \<in> set (failed_downloads b).
            \<exists>r. (d, r) \<in> set (outcomes b) \<and> (r = Inr m \<or> (\<exists>e. r = Inl e \<and> m = exn_str e)))"
proof -
  from assms obtain dates outs w1 failed where
    rt: "run_tasks channel (nat mc) (as_completed sched dates) (emit (MkDir ''logs'') w)
       = Some (outs, w1)"
    and cf: "collect_failures outs [] = Inr failed"
    and b: "b = \<lparr>failed_downloads = failed, outcomes = outs\<rparr>"
    and fin: "failed = [] \<and> w' = w1
     \<or> failed \<noteq> [] \<and>
        write_file (report_path channel) (concat (map report_line failed)) w1 = (Inr (), w')"
    by (rule download_logs_parallel_returns)
  let ?w0 = "emit (MkDir ''logs'') w"
  let ?pre = "MkDir ''logs'' # new_events ?w0 w1"
  from run_tasks_trace [OF rt, of channel]
  have t1: "trace w1 = trace w @ ?pre"
    and n1: "\<forall>c. FileWrite (report_path channel) c \<notin> set ?pre"
    by (simp_all add: emit_def)
  have t: "trace w' = trace w @ ?pre
            @ (if failed = [] then []
               else [FileWrite (report_path channel) (concat (map report_line failed))])"
  proof (cases "failed = []")
    case True
    with fin t1 show ?thesis by simp
  next
    case False
    with fin have "write_file (report_path channel) (concat (map report_line failed)) w1
        = (Inr (), w')" by simp
    from write_file_ok [OF this] t1 False show ?thesis by simp
  qed
  from collect_failures_distinct [OF cf] have d: "distinct (map fst failed)" by simp
  from collect_failures_keys [OF cf]
  have k: "fst ` set failed = {d. \<exists>r. (d, r) \<in> set outs \<and> is_failure r}" by simp
  have v: "\<forall>(d, m) \<in> set failed.
            \<exists>r. (d, r) \<in> set outs \<and> (r = Inr m \<or> (\<exists>e. r = Inl e \<and> m = exn_str e))"
  proof (clarify)
    fix d m
    assume "(d, m) \<in> set failed"
    from collect_failures_values [OF cf this]
    show "\<exists>r. (d, r) \<in> set outs \<and> (r = Inr m \<or> (\<exists>e. r = Inl e \<and> m = exn_str e))"
      by auto
  qed
  from t n1 d k v show ?thesis
    unfolding b by (intro exI [of _ ?pre]) simp
qed

lemma download_single_day_offline:
  "download_single_day ''foo'' ''2024-01-01'' 5 (emit (MkDir ''logs'') world_offline)
     = Some (Inr ''Error downloading 2024-01-01: Connection refused'',
             world_offline\<lparr>trace :=
               [MkDir ''logs'', RateLimiter, SemAcquire,
                HttpGet ''https://logs.ivr.fi/channel/foo''
                  [(''from'', ''2024-01-01T00:00:00Z''), (''to'', ''2024-01-02T00:00:00Z'')],
                LogError ''Error downloading 2024-01-01: Connection refused'',
                SemRelease]\<rparr>)"
  by (simp add: dl_defs sp_defs chr_defs dt_defs pad_numeral year_str_def str_nat_def
      world_offline_def)

lemma download_logs_parallel_offline:
  "download_logs_parallel ''foo'' ''01/01/2024'' ''01/01/2024'' 10 5 [] world_offline
     = Some (Inr \<lparr>failed_downloads =
                    [(''2024-01-01'', ''Error downloading 2024-01-01: Connection refused'')],
                  outcomes =
                    [(''2024-01-01'', Inr ''Error downloading 2024-01-01: Connection refused'')]\<rparr>,
             world_offline\<lparr>
               files := (files world_offline)(''failed_downloads_foo.txt'' \<mapsto>
                 ''2024-01-01: Error downloading 2024-01-01: Connection refused'' @ [CHR 0x0A]),
               trace :=
               [MkDir ''logs'', RateLimiter, SemAcquire,
                HttpGet ''https://logs.ivr.fi/channel/foo''
                  [(''from'', ''2024-01-01T00:00:00Z''), (''to'', ''2024-01-02T00:00:00Z'')],
                LogError ''Error downloading 2024-01-01: Connection refused'',
                SemRelease,
                FileWrite ''failed_downloads_foo.txt''
                  (''2024-01-01: Error downloading 2024-01-01: Connection refused''
                     @ [CHR 0x0A])]\<rparr>)"
proof -
  have m: "mkdir world_offline ''logs'' = None" by (simp add: world_offline_def)
  have s: "sublist ''Error'' ''Error downloading 2024-01-01: Connection refused''"
    by simp
  have r: "run_tasks ''foo'' 5 [''2024-01-01''] (emit (MkDir ''logs'') world_offline)
     = Some ([(''2024-01-01'', Inr ''Error downloading 2024-01-01: Connection refused'')],
             world_offline\<lparr>trace :=
               [MkDir ''logs'', RateLimiter, SemAcquire,
                HttpGet ''https://logs.ivr.fi/channel/foo''
                  [(''from'', ''2024-01-01T00:00:00Z''), (''to'', ''2024-01-02T00:00:00Z'')],
                LogError ''Error downloading 2024-01-01: Connection refused'',
                SemRelease]\<rparr>)"
    by (simp add: download_single_day_offline)
  have c: "collect_failures
      [(''2024-01-01'', Inr ''Error downloading 2024-01-01: Connection refused'')] []
     = Inr [(''2024-01-01'', ''Error downloading 2024-01-01: Connection refused'')]"
    using s by simp
  show ?thesis
    unfolding download_logs_parallel_def
    by (simp add: m generate_date_list_20240101 r c Let_def
          del: run_tasks.simps collect_failures.simps)
       (simp add: write_file_def report_path_def report_line_def emit_def world_offline_def)
qed

subsection \<open>A write failure\<close>

lemma download_single_day_disk_full:
  "download_single_day ''foo'' ''2024-01-01'' 5 (emit (MkDir ''logs'') world_disk_full)
     = Some (Inr ''Unexpected error for 2024-01-01: [Errno 28] No space left on device'',
             world_disk_full\<lparr>
               files := (files world_disk_full)(''logs/foo_logs_2024-01-01.txt'' \<mapsto> []),
               trace :=
               [MkDir ''logs'', RateLimiter, SemAcquire,
                HttpGet ''https://logs.ivr.fi/channel/foo''
                  [(''from'', ''2024-01-01T00:00:00Z''), (''to'', ''2024-01-02T00:00:00Z'')],
                LogError ''Unexpected error for 2024-01-01: [Errno 28] No space left on device'',
                SemRelease]\<rparr>)"
  by (simp add: dl_defs sp_defs chr_defs dt_defs pad_numeral year_str_def str_nat_def
      world_disk_full_def raise_for_status_def)

text \<open>
  C3 fails on the code where it speaks of write failures. The service answers 200, the
  write of the day's file fails with \<open>[Errno 28] No space left on device\<close>; the task
  returns \<open>Unexpected error for 2024-01-01: ...\<close>, with a small \<open>e\<close>, the test
  \<open>"Error" in result\<close> is false, and the run ends with an empty failure dictionary and
  no report.
\<close>

theorem write_failure_not_recorded:
  "download_logs_parallel ''foo'' ''01/01/2024'' ''01/01/2024'' 10 5 [] world_disk_full
     = Some (Inr \<lparr>failed_downloads = [],
                  outcomes =
                    [(''2024-01-01'',
                      Inr ''Unexpected error for 2024-01-01: [Errno 28] No space left on device'')]\<rparr>,
             world_disk_full\<lparr>
               files := (files world_disk_full)(''logs/foo_logs_2024-01-01.txt'' \<mapsto> []),
               trace :=
               [MkDir ''logs'', RateLimiter, SemAcquire,
                HttpGet ''https://logs.ivr.fi/channel/foo''
                  [(''from'', ''2024-01-01T00:00:00Z''), (''to'', ''2024-01-02T00:00:00Z'')],
                LogError ''Unexpected error for 2024-01-01: [Errno 28] No space left on device'',
                SemRelease]\<rparr>)"
proof -
  have m: "mkdir world_disk_full ''logs'' = None" by (simp add: world_disk_full_def)
  have s: "\<not> sublist ''Error''
      ''Unexpected error for 2024-01-01: [Errno 28] No space left on device''"
    by (simp add: sublist_code(3))
  have r: "run_tasks ''foo'' 5 [''2024-01-01''] (emit (MkDir ''logs'') world_disk_full)
     = Some ([(''2024-01-01'',
               Inr ''Unexpected error for 2024-01-01: [Errno 28] No space left on device'')],
             world_disk_full\<lparr>
               files := (files world_disk_full)(''logs/foo_logs_2024-01-01.txt'' \<mapsto> []),
               trace :=
               [MkDir ''logs'', RateLimiter, SemAcquire,
                HttpGet ''https://logs.ivr.fi/channel/foo''
                  [(''from'', ''2024-01-01T00:00:00Z''), (''to'', ''2024-01-02T00:00:00Z'')],
                LogError ''Unexpected error for 2024-01-01: [Errno 28] No space left on device'',
                SemRelease]\<rparr>)"
    by (simp add: download_single_day_disk_full)
  have c: "collect_failures
      [(''2024-01-01'',
        Inr ''Unexpected error for 2024-01-01: [Errno 28] No space left on device'')] []
     = Inr []"
    using s by simp
  show ?thesis
    unfolding download_logs_parallel_def
    by (simp add: m generate_date_list_20240101 r c Let_def
          del: run_tasks.simps collect_failures.simps)
qed

text \<open>
  C7 fails on the same run. A day has failed: its task returned
  \<open>Unexpected error for 2024-01-01: ...\<close>, logged it, and left an empty file for the day.
  The test \<open>"Error" in result\<close> does not see the small \<open>e\<close>, the failure dictionary stays
  empty, and \<open>failed_downloads_foo.txt\<close> is not written: the run ends without a report.
\<close>

theorem report_missing_after_write_failure:
  "download_logs_parallel ''foo'' ''01/01/2024'' ''01/01/2024'' 10 5 [] world_disk_full
     = Some (Inr \<lparr>failed_downloads = [],
                  outcomes =
                    [(''2024-01-01'',
                      Inr ''Unexpected error for 2024-01-01: [Errno 28] No space left on device'')]\<rparr>,
             world_disk_full\<lparr>
               files := (files world_disk_full)(''logs/foo_logs_2024-01-01.txt'' \<mapsto> []),
               trace :=
               [MkDir ''logs'', RateLimiter, SemAcquire,
                HttpGet ''https://logs.ivr.fi/channel/foo''
                  [(''from'', ''2024-01-01T00:00:00Z''), (''to'', ''2024-01-02T00:00:00Z'')],
                LogError ''Unexpected error for 2024-01-01: [Errno 28] No space left on device'',
                SemRelease]\<rparr>)
   \<and> \<not> succeeded ''2024-01-01''
         (Inr ''Unexpected error for 2024-01-01: [Errno 28] No space left on device'')
   \<and> report_path ''foo'' = ''failed_downloads_foo.txt''
   \<and> files (world_disk_full\<lparr>
               files := (files world_disk_full)(''logs/foo_logs_2024-01-01.txt'' \<mapsto> [])\<rparr>)
         ''failed_downloads_foo.txt'' = None"
proof -
  have m: "mkdir world_disk_full ''logs'' = None" by (simp add: world_disk_full_def)
  have s: "\<not> sublist ''Error''
      ''Unexpected error for 2024-01-01: [Errno 28] No space left on device''"
    by (simp add: sublist_code(3))
  have r: "run_tasks ''foo'' 5 [''2024-01-01''] (emit (MkDir ''logs'') world_disk_full)
     = Some ([(''2024-01-01'',
               Inr ''Unexpected error for 2024-01-01: [Errno 28] No space left on device'')],
             world_disk_full\<lparr>
               files := (files world_disk_full)(''logs/foo_logs_2024-01-01.txt'' \<mapsto> []),
               trace :=
               [MkDir ''logs'', RateLimiter, SemAcquire,
                HttpGet ''https://logs.ivr.fi/channel/foo''
                  [(''from'', ''2024-01-01T00:00:00Z''), (''to'', ''2024-01-02T00:00:00Z'')],
                LogError ''Unexpected error for 2024-01-01: [Errno 28] No space left on device'',
                SemRelease]\<rparr>)"
    by (simp add: download_single_day_disk_full)
  have c: "collect_failures
      [(''2024-01-01'',
        Inr ''Unexpected error for 2024-01-01: [Errno 28] No space left on device'')] []
     = Inr []"
    using s by simp
  have run: "download_logs_parallel ''foo'' ''01/01/2024'' ''01/01/2024'' 10 5 [] world_disk_full
     = Some (Inr \<lparr>failed_downloads = [],
                  outcomes =
                    [(''2024-01-01'',
                      Inr ''Unexpected error for 2024-01-01: [Errno 28] No space left on device'')]\<rparr>,
             world_disk_full\<lparr>
               files := (files world_disk_full)(''logs/foo_logs_2024-01-01.txt'' \<mapsto> []),
               trace :=
               [MkDir ''logs'', RateLimiter, SemAcquire,
                HttpGet ''https://logs.ivr.fi/channel/foo''
                  [(''from'', ''2024-01-01T00:00:00Z''), (''to'', ''2024-01-02T00:00:00Z'')],
                LogError ''Unexpected error for 2024-01-01: [Errno 28] No space left on device'',
                SemRelease]\<rparr>)"
    unfolding download_logs_parallel_def
    by (simp add: m generate_date_list_20240101 r c Let_def
          del: run_tasks.simps collect_failures.simps)
  have f: "\<not> succeeded ''2024-01-01''
         (Inr ''Unexpected error for 2024-01-01: [Errno 28] No space left on device'')"
    by (simp add: succeeded_def)
  have p: "report_path ''foo'' = ''failed_downloads_foo.txt''" by (simp add: report_path_def)
  have n: "files (world_disk_full\<lparr>
               files := (files world_disk_full)(''logs/foo_logs_2024-01-01.txt'' \<mapsto> [])\<rparr>)
         ''failed_downloads_foo.txt'' = None"
    by (simp add: world_disk_full_def)
  from run f p n show ?thesis by (intro conjI)
qed

subsection \<open>Days that are on disk\<close>

text \<open>C2 as stated fails: the file of the day exists, the call returns \<open>Skipped\<close>, and
  it has gone through the rate limiter, which wraps the whole function.\<close>

theorem skipped_day_passes_limiter:
  "files world_resumed ''logs/foo_logs_2024-01-01.txt'' \<noteq> None
   \<and> download_single_day ''foo'' ''2024-01-01'' 5 world_resumed
       = Some (Inr ''Skipped 2024-01-01 - file exists'',
               world_resumed\<lparr>trace := [RateLimiter]\<rparr>)"
  by (simp add: download_single_day_def download_single_day_body_def emit_def Let_def
      sp_defs chr_defs dt_defs world_resumed_def)

lemma write_file_files:
  "write_file p c w = (r, w') \<Longrightarrow> files w q \<noteq> None \<Longrightarrow> files w' q \<noteq> None"
  by (auto simp: write_file_def emit_def split: write_result.splits)

lemma write_file_service: "write_file p c w = (r, w') \<Longrightarrow> same_service w w'"
  by (auto simp: write_file_def emit_def same_service_def split: write_result.splits)

lemma second_run_skips:
  assumes run: "download_logs_parallel channel s e mw mc sched w = Some (Inr b, w1)"
    and ok: "\<forall>(d, r) \<in> set (outcomes b). succeeded d r"
  shows "\<exists>dates. generate_date_list (zero_pad_year w) s e = Inr dates
     \<and> set (as_completed sched' dates) = set dates
     \<and> download_logs_parallel channel s e mw mc sched' w1
         = Some (Inr \<lparr>failed_downloads = [],
                      outcomes = map (\<lambda>date. (date, Inr (''Skipped '' @ date @ '' - file exists'')))
                                   (as_completed sched' dates)\<rparr>,
                 w1\<lparr>trace := trace w1 @ MkDir ''logs'' # replicate (length dates) RateLimiter\<rparr>)"
proof -
  from run obtain dates outs wA failed where
    mk: "mkdir w ''logs'' = None" and g: "generate_date_list (zero_pad_year w) s e = Inr dates"
    and mc: "\<not> mc < 0" and mw: "\<not> mw \<le> 0"
    and rt: "run_tasks channel (nat mc) (as_completed sched dates) (emit (MkDir ''logs'') w)
       = Some (outs, wA)"
    and b: "b = \<lparr>failed_downloads = failed, outcomes = outs\<rparr>"
    and fin: "failed = [] \<and> w1 = wA
     \<or> failed \<noteq> [] \<and>
        write_file (report_path channel) (concat (map report_line failed)) wA = (Inr (), w1)"
    by (rule download_logs_parallel_returns)
  from ok b have all: "\<forall>(d, r) \<in> set outs. succeeded d r" by simp
  from run_tasks_succeeded [OF rt all]
  have A: "\<forall>date \<in> set dates.
      files wA (''logs/'' @ channel @ ''_logs_'' @ date @ ''.txt'') \<noteq> None
      \<and> (\<exists>d d'. strptime date ''%Y-%m-%d'' = Inr d \<and> add_one_day d = Inr d')"
    by (simp add: set_as_completed)
  have f1: "files w1 q \<noteq> None" if "files wA q \<noteq> None" for q
    using fin that by (auto dest: write_file_files)
  have "same_service wA w1"
    using fin by (auto dest: write_file_service simp: same_service_def)
  with run_tasks_service [OF rt] have mk1: "mkdir w1 ''logs'' = None"
    and zp1: "zero_pad_year w1 = zero_pad_year w"
    using mk by (simp_all add: same_service_def emit_def)
  let ?w0 = "emit (MkDir ''logs'') w1"
  let ?ds = "as_completed sched' dates"
  let ?outs = "map (\<lambda>date. (date, Inr (''Skipped '' @ date @ '' - file exists''))) ?ds
                 :: (string \<times> (py_exception + string)) list"
  have B: "\<forall>date \<in> set ?ds.
      files ?w0 (''logs/'' @ channel @ ''_logs_'' @ date @ ''.txt'') \<noteq> None
      \<and> (\<exists>d d'. strptime date ''%Y-%m-%d'' = Inr d \<and> add_one_day d = Inr d')"
    using A f1 by (auto simp: set_as_completed emit_def)
  from run_tasks_all_skipped [OF B, of "nat mc"]
  have rt2: "run_tasks channel (nat mc) ?ds ?w0
     = Some (?outs, w1\<lparr>trace := trace w1 @ MkDir ''logs'' # replicate (length dates) RateLimiter\<rparr>)"
    by (simp add: emit_def length_as_completed)
  have "\<forall>(d, r) \<in> set ?outs. \<exists>t. r = Inr t \<and> \<not> sublist ''Error'' t"
  proof (clarify)
    fix d r
    assume "(d, r) \<in> set ?outs"
    then have d: "d \<in> set dates" and r: "r = Inr (''Skipped '' @ d @ '' - file exists'')"
      by (auto simp: set_as_completed)
    from A d obtain d0 where "strptime d ''%Y-%m-%d'' = Inr d0" by blast
    from strptime_ymd_no_E [OF this]
    have "CHR ''E'' \<notin> set (''Skipped '' @ d @ '' - file exists'')" by simp
    from not_sublist_Error [OF this] r
    show "\<exists>t. r = Inr t \<and> \<not> sublist ''Error'' t" by blast
  qed
  from collect_failures_none [OF this] have cf2: "collect_failures ?outs [] = Inr []" .
  have "download_logs_parallel channel s e mw mc sched' w1
         = Some (Inr \<lparr>failed_downloads = [], outcomes = ?outs\<rparr>,
                 w1\<lparr>trace := trace w1 @ MkDir ''logs'' # replicate (length dates) RateLimiter\<rparr>)"
    unfolding download_logs_parallel_def
    by (simp add: mk1 zp1 g mc mw rt2 cf2 [unfolded append.simps] Let_def
          del: run_tasks.simps collect_failures.simps)
  with g show ?thesis by (simp add: set_as_completed)
qed

text \<open>
  C2, as the code has it. For a day that parses and has a next day, when the day's file
  exists the call returns \<open>Skipped\<close>, and all it has done is pass the rate limiter: no
  semaphore, no request, no file. And when every task of a run went well, a second run
  over the same range, whatever the order its tasks finish in, returns \<open>Skipped\<close> for
  every day of the range and does nothing but \<open>mkdir\<close> and one pass of the limiter per
  day: no request is made.
\<close>

theorem skip_existing_day:
  "(\<forall>d d'. strptime date_str ''%Y-%m-%d'' = Inr d \<and> add_one_day d = Inr d'
        \<and> files w (''logs/'' @ channel @ ''_logs_'' @ date_str @ ''.txt'') \<noteq> None
      \<longrightarrow> download_single_day channel date_str semaphore w
           = Some (Inr (''Skipped '' @ date_str @ '' - file exists''),
                   w\<lparr>trace := trace w @ [RateLimiter]\<rparr>))
   \<and> (\<forall>b w1. download_logs_parallel channel s e mw mc sched w = Some (Inr b, w1)
        \<and> (\<forall>(d, r) \<in> set (outcomes b). succeeded d r)
      \<longrightarrow> (\<exists>dates. generate_date_list (zero_pad_year w) s e = Inr dates
           \<and> set (as_completed sched' dates) = set dates
           \<and> download_logs_parallel channel s e mw mc sched' w1
               = Some (Inr \<lparr>failed_downloads = [],
                            outcomes = map (\<lambda>date. (date, Inr (''Skipped '' @ date
                                                               @ '' - file exists'')))
                                         (as_completed sched' dates)\<rparr>,
                       w1\<lparr>trace := trace w1 @ MkDir ''logs''
                                      # replicate (length dates) RateLimiter\<rparr>)))"
proof (intro conjI allI impI)
  fix d d'
  assume "strptime date_str ''%Y-%m-%d'' = Inr d \<and> add_one_day d = Inr d'
        \<and> files w (''logs/'' @ channel @ ''_logs_'' @ date_str @ ''.txt'') \<noteq> None"
  then show "download_single_day channel date_str semaphore w
           = Some (Inr (''Skipped '' @ date_str @ '' - file exists''),
                   w\<lparr>trace := trace w @ [RateLimiter]\<rparr>)"
    using download_single_day_skip [of date_str d d' w channel semaphore]
    by (simp add: emit_def)
next
  fix b w1
  assume "download_logs_parallel channel s e mw mc sched w = Some (Inr b, w1)
        \<and> (\<forall>(d, r) \<in> set (outcomes b). succeeded d r)"
  then show "\<exists>dates. generate_date_list (zero_pad_year w) s e = Inr dates
           \<and> set (as_completed sched' dates) = set dates
           \<and> download_logs_parallel channel s e mw mc sched' w1
               = Some (Inr \<lparr>failed_downloads = [],
                            outcomes = map (\<lambda>date. (date, Inr (''Skipped '' @ date
                                                               @ '' - file exists'')))
                                         (as_completed sched' dates)\<rparr>,
                       w1\<lparr>trace := trace w1 @ MkDir ''logs''
                                      # replicate (length dates) RateLimiter\<rparr>)"
    using second_run_skips [of channel s e mw mc sched w b w1 sched'] by blast
qed

lemma download_single_day_online:
  "download_single_day ''foo'' ''2024-01-01'' 5 (emit (MkDir ''logs'') world_online)
     = Some (Inr ''Successfully downloaded 2024-01-01'', world_downloaded)"
  by (simp add: dl_defs sp_defs chr_defs dt_defs pad_numeral year_str_def str_nat_def
      world_online_def world_downloaded_def raise_for_status_def)

lemma download_logs_parallel_online:
  "download_logs_parallel ''foo'' ''01/01/2024'' ''01/01/2024'' 10 5 [] world_online
     = Some (Inr \<lparr>failed_downloads = [],
                  outcomes = [(''2024-01-01'', Inr ''Successfully downloaded 2024-01-01'')]\<rparr>,
             world_downloaded)"
proof -
  have m: "mkdir world_online ''logs'' = None" by (simp add: world_online_def)
  have s: "\<not> sublist ''Error'' ''Successfully downloaded 2024-01-01''"
    by (simp add: sublist_code(3))
  have r: "run_tasks ''foo'' 5 [''2024-01-01''] (emit (MkDir ''logs'') world_online)
     = Some ([(''2024-01-01'', Inr ''Successfully downloaded 2024-01-01'')], world_downloaded)"
    by (simp add: download_single_day_online)
  have c: "collect_failures [(''2024-01-01'', Inr ''Successfully downloaded 2024-01-01'')] []
     = Inr []"
    using s by simp
  show ?thesis
    unfolding download_logs_parallel_def
    by (simp add: m generate_date_list_20240101 r c Let_def
          del: run_tasks.simps collect_failures.simps)
qed

theorem skip_existing_day_witness:
  "download_logs_parallel ''foo'' ''01/01/2024'' ''01/01/2024'' 10 5 [] world_online
     = Some (Inr \<lparr>failed_downloads = [],
                  outcomes = [(''2024-01-01'', Inr ''Successfully downloaded 2024-01-01'')]\<rparr>,
             world_downloaded)
   \<and> download_logs_parallel ''foo'' ''01/01/2024'' ''01/01/2024'' 10 5 [0] world_downloaded
     = Some (Inr \<lparr>failed_downloads = [],
                  outcomes = [(''2024-01-01'', Inr ''Skipped 2024-01-01 - file exists'')]\<rparr>,
             world_downloaded\<lparr>trace := trace world_downloaded
                                         @ [MkDir ''logs'', RateLimiter]\<rparr>)"
proof -
  note run = download_logs_parallel_online
  have ok: "\<forall>(d, r) \<in> set (outcomes \<lparr>failed_downloads = [],
                  outcomes = [(''2024-01-01'', Inr ''Successfully downloaded 2024-01-01'')]\<rparr>).
              succeeded d r"
    by (simp add: succeeded_def)
  from skip_existing_day [THEN conjunct2, rule_format, OF conjI, OF run ok, of "[0]"]
  show ?thesis
    using run by (simp add: generate_date_list_20240101 without_def)
qed

section \<open>The semaphore\<close>

lemma filter_update_count:
  "i < length xs \<Longrightarrow>
     length (filter P (xs[i := v])) + (if P (xs ! i) then 1 else 0)
       = length (filter P xs) + (if P v then 1 else 0)"
proof (induction xs arbitrary: i)
  case Nil
  then show ?case by simp
next
  case (Cons a xs)
  show ?case
  proof (cases i)
    case 0
    then show ?thesis by simp
  next
    case (Suc j)
    with Cons.prems have "j < length xs" by simp
    from Cons.IH [OF this] show ?thesis using Suc by simp
  qed
qed

lemma download_single_day_gated:
  assumes "download_single_day channel date_str semaphore w = Some (r, w')"
  shows "gated False (new_events w w')"
  using assms
  by (auto simp: dl_defs new_events_def
      split: sum.splits if_splits prod.splits http_result.splits write_result.splits)

lemma task_events_gated: "gated False (task_events channel date_str w)"
proof (cases "download_single_day channel date_str 1 w")
  case None
  then show ?thesis by (simp add: task_events_def)
next
  case (Some a)
  obtain r w' where a: "a = (r, w')" by (cases a)
  from download_single_day_gated [OF Some [unfolded a]] Some a show ?thesis
    by (simp add: task_events_def new_events_def)
qed

lemma download_single_day_releases:
  assumes "download_single_day channel date_str semaphore w = Some (r, w')"
    and "SemAcquire \<in> set (new_events w w')"
  shows "last (new_events w w') = SemRelease"
  using assms
  by (auto simp: dl_defs new_events_def
      split: sum.splits if_splits prod.splits http_result.splits write_result.splits)

lemma gated_tail:
  "ev \<noteq> SemAcquire \<Longrightarrow> ev \<noteq> SemRelease \<Longrightarrow> gated h (ev # evs) \<Longrightarrow> gated h evs"
  by (cases ev) auto

lemma gated_holding_releases: "gated True evs \<Longrightarrow> SemRelease \<in> set evs"
proof (induction evs)
  case Nil
  then show ?case by simp
next
  case (Cons ev evs)
  then show ?case by (cases ev) simp_all
qed

lemma gate_ok_nth:
  "gate_ok m g \<Longrightarrow> i < length (pending g) \<Longrightarrow> gated (holding g ! i) (pending g ! i)"
  by (simp add: gate_ok_def list_all_iff)

lemma gate_okI:
  assumes "permits g + in_flight g = m" and "length (holding g) = length (pending g)"
    and "\<And>i. i < length (pending g) \<Longrightarrow> gated (holding g ! i) (pending g ! i)"
  shows "gate_ok m g"
  using assms by (simp add: gate_ok_def list_all_iff)

lemma gate_init_ok:
  assumes "\<forall>p \<in> set progs. gated False p"
  shows "gate_ok m (gate_init m progs)"
proof (rule gate_okI)
  have "filter (\<lambda>h. h) (map (\<lambda>p. False) progs) = []" by (induction progs) simp_all
  then show "permits (gate_init m progs) + in_flight (gate_init m progs) = m"
    by (simp add: gate_init_def in_flight_def)
next
  show "length (holding (gate_init m progs)) = length (pending (gate_init m progs))"
    by (simp add: gate_init_def)
next
  fix i
  assume "i < length (pending (gate_init m progs))"
  with assms show "gated (holding (gate_init m progs) ! i) (pending (gate_init m progs) ! i)"
    by (simp add: gate_init_def)
qed

lemma gate_step_ok:
  assumes ok: "gate_ok m g" and st: "gate_step i g = Some g'"
  shows "gate_ok m g'"
proof -
  from st obtain ev evs where i: "i < length (pending g)" and p: "pending g ! i = ev # evs"
    by (auto simp: gate_step_def split: if_splits list.splits)
  from ok have len: "length (holding g) = length (pending g)"
    and sum: "permits g + in_flight g = m"
    by (simp_all add: gate_ok_def)
  from gate_ok_nth [OF ok i] p have gi: "gated (holding g ! i) (ev # evs)" by simp
  from i len have ih: "i < length (holding g)" by simp
  have others: "\<And>j. j < length (pending g) \<Longrightarrow> j \<noteq> i
              \<Longrightarrow> gated (holding g ! j) (pending g ! j)"
    using ok by (rule gate_ok_nth)
  consider (acq) "ev = SemAcquire" | (rel) "ev = SemRelease"
    | (other) "ev \<noteq> SemAcquire" "ev \<noteq> SemRelease"
    by blast
  then show ?thesis
  proof cases
    case acq
    with st i p have pos: "0 < permits g"
      and g': "g' = g\<lparr>permits := permits g - 1, pending := (pending g)[i := evs],
                       holding := (holding g)[i := True]\<rparr>"
      by (auto simp: gate_step_def split: if_splits)
    from gi acq have h: "\<not> holding g ! i" and t: "gated True evs" by simp_all
    from filter_update_count [OF ih, of "\<lambda>h. h" True] h
    have "in_flight g' = in_flight g + 1" by (simp add: g' in_flight_def)
    with sum pos have s': "permits g' + in_flight g' = m" by (simp add: g')
    show ?thesis
    proof (rule gate_okI [OF s'])
      show "length (holding g') = length (pending g')" using len by (simp add: g')
    next
      fix j
      assume "j < length (pending g')"
      then have j: "j < length (pending g)" by (simp add: g')
      show "gated (holding g' ! j) (pending g' ! j)"
        using j ih i t others [OF j] by (cases "j = i") (simp_all add: g')
    qed
  next
    case rel
    with st i p have
      g': "g' = g\<lparr>permits := permits g + 1, pending := (pending g)[i := evs],
                       holding := (holding g)[i := False]\<rparr>"
      by (auto simp: gate_step_def split: if_splits)
    from gi rel have h: "holding g ! i" and t: "gated False evs" by simp_all
    from filter_update_count [OF ih, of "\<lambda>h. h" False] h
    have "in_flight g' + 1 = in_flight g" by (simp add: g' in_flight_def)
    with sum have s': "permits g' + in_flight g' = m" by (simp add: g')
    show ?thesis
    proof (rule gate_okI [OF s'])
      show "length (holding g') = length (pending g')" using len by (simp add: g')
    next
      fix j
      assume "j < length (pending g')"
      then have j: "j < length (pending g)" by (simp add: g')
      show "gated (holding g' ! j) (pending g' ! j)"
        using j ih i t others [OF j] by (cases "j = i") (simp_all add: g')
    qed
  next
    case other
    with st i p have g': "g' = g\<lparr>pending := (pending g)[i := evs]\<rparr>"
      by (auto simp: gate_step_def split: if_splits)
    from gated_tail [OF other gi] have t: "gated (holding g ! i) evs" .
    from sum have s': "permits g' + in_flight g' = m" by (simp add: g' in_flight_def)
    show ?thesis
    proof (rule gate_okI [OF s'])
      show "length (holding g') = length (pending g')" using len by (simp add: g')
    next
      fix j
      assume "j < length (pending g')"
      then have j: "j < length (pending g)" by (simp add: g')
      show "gated (holding g' ! j) (pending g' ! j)"
        using j i t others [OF j] by (cases "j = i") (simp_all add: g')
    qed
  qed
qed

lemma gate_run_ok:
  "gate_ok m g \<Longrightarrow> gate_run sched g = Some g' \<Longrightarrow> gate_ok m g'"
proof (induction sched arbitrary: g)
  case Nil
  then show ?case by simp
next
  case (Cons i sched)
  from Cons.prems(2) obtain g1 where s: "gate_step i g = Some g1"
    and r: "gate_run sched g1 = Some g'"
    by (auto split: option.splits)
  from Cons.IH [OF gate_step_ok [OF Cons.prems(1) s] r] show ?case .
qed

lemma gate_release_step:
  assumes ok: "gate_ok m g" and i: "i < length (pending g)"
    and p: "pending g ! i = SemRelease # evs"
  shows "\<exists>g'. gate_step i g = Some g' \<and> permits g' = permits g + 1
           \<and> in_flight g' + 1 = in_flight g
           \<and> (\<forall>j evs'. j < length (pending g') \<and> pending g' ! j = SemAcquire # evs'
                  \<longrightarrow> gate_step j g' \<noteq> None)"
proof -
  let ?g' = "g\<lparr>permits := permits g + 1, pending := (pending g)[i := evs],
                holding := (holding g)[i := False]\<rparr>"
  from i p have st: "gate_step i g = Some ?g'" by (simp add: gate_step_def)
  from gate_step_ok [OF ok st] have "permits ?g' + in_flight ?g' = m" by (simp add: gate_ok_def)
  moreover from ok have "permits g + in_flight g = m" by (simp add: gate_ok_def)
  ultimately have fl: "in_flight ?g' + 1 = in_flight g" by simp
  have "\<forall>j evs'. j < length (pending ?g') \<and> pending ?g' ! j = SemAcquire # evs'
                  \<longrightarrow> gate_step j ?g' \<noteq> None"
    by (auto simp: gate_step_def)
  with st fl show ?thesis by simp
qed

lemma task_events_offline_1:
  "task_events ''foo'' ''2024-01-01'' world_offline
     = [RateLimiter, SemAcquire,
        HttpGet ''https://logs.ivr.fi/channel/foo''
          [(''from'', ''2024-01-01T00:00:00Z''), (''to'', ''2024-01-02T00:00:00Z'')],
        LogError ''Error downloading 2024-01-01: Connection refused'',
        SemRelease]"
  by (simp add: task_events_def dl_defs sp_defs chr_defs dt_defs pad_numeral year_str_def
      str_nat_def world_offline_def)

lemma task_events_offline_2:
  "task_events ''foo'' ''2024-01-02'' world_offline
     = [RateLimiter, SemAcquire,
        HttpGet ''https://logs.ivr.fi/channel/foo''
          [(''from'', ''2024-01-02T00:00:00Z''), (''to'', ''2024-01-03T00:00:00Z'')],
        LogError ''Error downloading 2024-01-02: Connection refused'',
        SemRelease]"
  by (simp add: task_events_def dl_defs sp_defs chr_defs dt_defs pad_numeral year_str_def
      str_nat_def world_offline_def)

lemma task_events_offline_3:
  "task_events ''foo'' ''2024-01-03'' world_offline
     = [RateLimiter, SemAcquire,
        HttpGet ''https://logs.ivr.fi/channel/foo''
          [(''from'', ''2024-01-03T00:00:00Z''), (''to'', ''2024-01-04T00:00:00Z'')],
        LogError ''Error downloading 2024-01-03: Connection refused'',
        SemRelease]"
  by (simp add: task_events_def dl_defs sp_defs chr_defs dt_defs pad_numeral year_str_def
      str_nat_def world_offline_def)

lemma download_single_day_interrupted:
  "download_single_day ''foo'' ''2024-01-01'' 1 world_interrupted
     = Some (Inl (Exc KeyboardInterrupt []),
             world_interrupted\<lparr>trace :=
               [RateLimiter, SemAcquire,
                HttpGet ''https://logs.ivr.fi/channel/foo''
                  [(''from'', ''2024-01-01T00:00:00Z''), (''to'', ''2024-01-02T00:00:00Z'')],
                SemRelease]\<rparr>)"
  by (simp add: dl_defs sp_defs chr_defs dt_defs pad_numeral year_str_def str_nat_def
      world_interrupted_def)

lemma gate_run_three:
  "gate_run [0, 0, 0, 0, 1, 1, 2]
     (gate_init 2 (map (\<lambda>(date_str, w). task_events ''foo'' date_str w)
        [(''2024-01-01'', world_offline), (''2024-01-02'', world_offline),
         (''2024-01-03'', world_offline)]))
   = Some \<lparr>permits = 0,
           pending =
             [[SemRelease],
              [HttpGet ''https://logs.ivr.fi/channel/foo''
                 [(''from'', ''2024-01-02T00:00:00Z''), (''to'', ''2024-01-03T00:00:00Z'')],
               LogError ''Error downloading 2024-01-02: Connection refused'',
               SemRelease],
              [SemAcquire,
               HttpGet ''https://logs.ivr.fi/channel/foo''
                 [(''from'', ''2024-01-03T00:00:00Z''), (''to'', ''2024-01-04T00:00:00Z'')],
               LogError ''Error downloading 2024-01-03: Connection refused'',
               SemRelease]],
           holding = [True, True, False]\<rparr>"
  by (simp add: task_events_offline_1 task_events_offline_2 task_events_offline_3
      gate_init_def gate_step_def)

text \<open>
  C6. The tasks are calls of \<open>download_single_day\<close> for any days, each in any world, on one
  semaphore of \<open>m\<close> permits, and the threads take their steps in any order \<open>sched\<close>. At
  every state \<open>g\<close> such a run reaches: at most \<open>m\<close> tasks are inside
  \<open>with semaphore:\<close>, and the free permits and the tasks inside add up to \<open>m\<close>; a task
  whose next step is the request is inside; a task that is inside has its \<open>release\<close> still
  to come, whatever its request and its write will give; and when the next step of a task
  is its \<open>release\<close>, that step can be taken, it gives one permit back, and every task that
  waits at \<open>acquire\<close> can then go on. The last part is about the call itself, however
  it ends, with a value or with an exception that leaves it: once it has entered the block,
  the last thing it does is the \<open>release\<close>.
\<close>

theorem semaphore_bounds_requests:
  assumes "gate_run sched
             (gate_init m (map (\<lambda>(date_str, w). task_events channel date_str w) tasks))
           = Some g"
  shows "in_flight g \<le> m \<and> permits g + in_flight g = m
     \<and> (\<forall>i u ps evs. i < length (pending g) \<and> pending g ! i = HttpGet u ps # evs
           \<longrightarrow> holding g ! i)
     \<and> (\<forall>i. i < length (pending g) \<and> holding g ! i \<longrightarrow> SemRelease \<in> set (pending g ! i))
     \<and> (\<forall>i evs. i < length (pending g) \<and> pending g ! i = SemRelease # evs
           \<longrightarrow> (\<exists>g'. gate_step i g = Some g' \<and> permits g' = permits g + 1
                    \<and> in_flight g' + 1 = in_flight g
                    \<and> (\<forall>j evs'. j < length (pending g') \<and> pending g' ! j = SemAcquire # evs'
                           \<longrightarrow> gate_step j g' \<noteq> None)))
     \<and> (\<forall>date_str semaphore w r w'.
           download_single_day channel date_str semaphore w = Some (r, w')
           \<and> SemAcquire \<in> set (new_events w w')
           \<longrightarrow> last (new_events w w') = SemRelease)"
proof -
  have "\<forall>p \<in> set (map (\<lambda>(date_str, w). task_events channel date_str w) tasks). gated False p"
    by (auto simp: task_events_gated)
  from gate_run_ok [OF gate_init_ok [OF this] assms] have ok: "gate_ok m g" .
  then have sum: "permits g + in_flight g = m" by (simp add: gate_ok_def)
  have req: "holding g ! i" if "i < length (pending g)" "pending g ! i = HttpGet u ps # evs"
    for i u ps evs
    using gate_ok_nth [OF ok that(1)] that(2) by simp
  have rel: "SemRelease \<in> set (pending g ! i)" if "i < length (pending g)" "holding g ! i" for i
    using gate_ok_nth [OF ok that(1)] that(2) by (simp add: gated_holding_releases)
  have nxt: "\<exists>g'. gate_step i g = Some g' \<and> permits g' = permits g + 1
                    \<and> in_flight g' + 1 = in_flight g
                    \<and> (\<forall>j evs'. j < length (pending g') \<and> pending g' ! j = SemAcquire # evs'
                           \<longrightarrow> gate_step j g' \<noteq> None)"
    if "i < length (pending g)" "pending g ! i = SemRelease # evs" for i evs
    using ok that by (rule gate_release_step)
  have ext: "last (new_events w w') = SemRelease"
    if "download_single_day channel date_str semaphore w = Some (r, w')"
      "SemAcquire \<in> set (new_events w w')" for date_str semaphore w r w'
    using that by (rule download_single_day_releases)
  from sum have "in_flight g \<le> m" by simp
  with sum req rel nxt ext show ?thesis by blast
qed

theorem semaphore_bounds_requests_witness:
  "gate_run [0, 0, 0, 0, 1, 1, 2]
     (gate_init 2 (map (\<lambda>(date_str, w). task_events ''foo'' date_str w)
        [(''2024-01-01'', world_offline), (''2024-01-02'', world_offline),
         (''2024-01-03'', world_offline)]))
   = Some \<lparr>permits = 0,
           pending =
             [[SemRelease],
              [HttpGet ''https://logs.ivr.fi/channel/foo''
                 [(''from'', ''2024-01-02T00:00:00Z''), (''to'', ''2024-01-03T00:00:00Z'')],
               LogError ''Error downloading 2024-01-02: Connection refused'',
               SemRelease],
              [SemAcquire,
               HttpGet ''https://logs.ivr.fi/channel/foo''
                 [(''from'', ''2024-01-03T00:00:00Z''), (''to'', ''2024-01-04T00:00:00Z'')],
               LogError ''Error downloading 2024-01-03: Connection refused'',
               SemRelease]],
           holding = [True, True, False]\<rparr>
   \<and> in_flight \<lparr>permits = 0,
           pending =
             [[SemRelease],
              [HttpGet ''https://logs.ivr.fi/channel/foo''
                 [(''from'', ''2024-01-02T00:00:00Z''), (''to'', ''2024-01-03T00:00:00Z'')],
               LogError ''Error downloading 2024-01-02: Connection refused'',
               SemRelease],
              [SemAcquire,
               HttpGet ''https://logs.ivr.fi/channel/foo''
                 [(''from'', ''2024-01-03T00:00:00Z''), (''to'', ''2024-01-04T00:00:00Z'')],
               LogError ''Error downloading 2024-01-03: Connection refused'',
               SemRelease]],
           holding = [True, True, False]\<rparr> \<le> 2
   \<and> gate_step 2 \<lparr>permits = 0,
           pending =
             [[SemRelease],
              [HttpGet ''https://logs.ivr.fi/channel/foo''
                 [(''from'', ''2024-01-02T00:00:00Z''), (''to'', ''2024-01-03T00:00:00Z'')],
               LogError ''Error downloading 2024-01-02: Connection refused'',
               SemRelease],
              [SemAcquire,
               HttpGet ''https://logs.ivr.fi/channel/foo''
                 [(''from'', ''2024-01-03T00:00:00Z''), (''to'', ''2024-01-04T00:00:00Z'')],
               LogError ''Error downloading 2024-01-03: Connection refused'',
               SemRelease]],
           holding = [True, True, False]\<rparr> = None
   \<and> gate_run [0, 2] \<lparr>permits = 0,
           pending =
             [[SemRelease],
              [HttpGet ''https://logs.ivr.fi/channel/foo''
                 [(''from'', ''2024-01-02T00:00:00Z''), (''to'', ''2024-01-03T00:00:00Z'')],
               LogError ''Error downloading 2024-01-02: Connection refused'',
               SemRelease],
              [SemAcquire,
               HttpGet ''https://logs.ivr.fi/channel/foo''
                 [(''from'', ''2024-01-03T00:00:00Z''), (''to'', ''2024-01-04T00:00:00Z'')],
               LogError ''Error downloading 2024-01-03: Connection refused'',
               SemRelease]],
           holding = [True, True, False]\<rparr>
     = Some \<lparr>permits = 0,
           pending =
             [[],
              [HttpGet ''https://logs.ivr.fi/channel/foo''
                 [(''from'', ''2024-01-02T00:00:00Z''), (''to'', ''2024-01-03T00:00:00Z'')],
               LogError ''Error downloading 2024-01-02: Connection refused'',
               SemRelease],
              [HttpGet ''https://logs.ivr.fi/channel/foo''
                 [(''from'', ''2024-01-03T00:00:00Z''), (''to'', ''2024-01-04T00:00:00Z'')],
               LogError ''Error downloading 2024-01-03: Connection refused'',
               SemRelease]],
           holding = [False, True, True]\<rparr>
   \<and> download_single_day ''foo'' ''2024-01-01'' 1 world_interrupted
     = Some (Inl (Exc KeyboardInterrupt []),
             world_interrupted\<lparr>trace :=
               [RateLimiter, SemAcquire,
                HttpGet ''https://logs.ivr.fi/channel/foo''
                  [(''from'', ''2024-01-01T00:00:00Z''), (''to'', ''2024-01-02T00:00:00Z'')],
                SemRelease]\<rparr>)"
proof -
  note run = gate_run_three
  from semaphore_bounds_requests [OF run] have "in_flight \<lparr>permits = 0,
           pending =
             [[SemRelease],
              [HttpGet ''https://logs.ivr.fi/channel/foo''
                 [(''from'', ''2024-01-02T00:00:00Z''), (''to'', ''2024-01-03T00:00:00Z'')],
               LogError ''Error downloading 2024-01-02: Connection refused'',
               SemRelease],
              [SemAcquire,
               HttpGet ''https://logs.ivr.fi/channel/foo''
                 [(''from'', ''2024-01-03T00:00:00Z''), (''to'', ''2024-01-04T00:00:00Z'')],
               LogError ''Error downloading 2024-01-03: Connection refused'',
               SemRelease]],
           holding = [True, True, False]\<rparr> \<le> 2"
    by (rule conjunct1)
  with run download_single_day_interrupted show ?thesis
    by (simp add: gate_step_def)
qed

end
